theory Spec2Isabelle
  imports Complex_Main "HOL-Library.AList"
begin

section \<open>JavaScript values and the object store\<close>

text \<open>
  The analysis service answers with JSON, so the values that reach the normalizer, the
  scorer and the aggregator are \<open>undefined\<close> (a missing property), \<open>null\<close>, booleans,
  numbers, strings, and references to objects or arrays. Objects live in a store: the
  normalizer copies its argument with \<open>{ ...result }\<close>, which is a shallow copy, and then
  assigns to properties of nested objects, so which objects are shared matters.

  Numbers are finite IEEE doubles, written as the rational they denote (JSON cannot
  express NaN or an infinity). Strings are byte strings; \<open>toLowerCase\<close> is modelled on
  the ASCII letters and leaves every other byte as it is.
\<close>

type_synonym addr = nat

datatype jsval =
    JUndefined
  | JNull
  | JBool bool
  | JNum rat
  | JStr string
  | JRef addr

record jsobj =
  is_array :: bool
  props :: "(string \<times> jsval) list"

type_synonym heap = "jsobj list"

datatype js_error =
    TypeError
  | Unmodelled

text \<open>JavaScript truthiness: \<open>if (v)\<close>, \<open>!v\<close>, \<open>v || w\<close>.\<close>

fun truthy :: "jsval \<Rightarrow> bool" where
  "truthy JUndefined = False"
| "truthy JNull = False"
| "truthy (JBool b) = b"
| "truthy (JNum r) = (r \<noteq> 0)"
| "truthy (JStr s) = (s \<noteq> [])"
| "truthy (JRef a) = True"

text \<open>\<open>typeof v === 'object'\<close> holds of \<open>null\<close>, of objects and of arrays.\<close>

fun typeof_object :: "jsval \<Rightarrow> bool" where
  "typeof_object JNull = True"
| "typeof_object (JRef a) = True"
| "typeof_object v = False"

definition own_props :: "heap \<Rightarrow> addr \<Rightarrow> (string \<times> jsval) list" where
  "own_props h a = (if a < length h then props (h ! a) else [])"

text \<open>
  \<open>v.k\<close> for a value that is neither \<open>null\<close> nor \<open>undefined\<close>: the own property of an
  object or array, \<open>undefined\<close> when there is none. None of the property names this
  program reads is defined on \<open>Object.prototype\<close>, \<open>Array.prototype\<close>,
  \<open>String.prototype\<close>, \<open>Number.prototype\<close> or \<open>Boolean.prototype\<close>, so reading one off
  a primitive gives \<open>undefined\<close>. Every call site below guards against \<open>null\<close> and
  \<open>undefined\<close> the way the source does (\<open>opt_get\<close> for \<open>?.\<close>, an explicit test
  otherwise).
\<close>

fun get_prop :: "heap \<Rightarrow> jsval \<Rightarrow> string \<Rightarrow> jsval" where
  "get_prop h (JRef a) k = (case map_of (own_props h a) k of Some v \<Rightarrow> v | None \<Rightarrow> JUndefined)"
| "get_prop h v k = JUndefined"

text \<open>\<open>v?.k\<close>\<close>

definition opt_get :: "heap \<Rightarrow> jsval \<Rightarrow> string \<Rightarrow> jsval" where
  "opt_get h v k = (if v = JUndefined \<or> v = JNull then JUndefined else get_prop h v k)"

text \<open>
  \<open>o.k = v\<close>. The program only assigns to a property it has just read a truthy value
  from, so the target is an object that has the property; the model still covers the
  general case of an object (the property is updated in place, or appended).
\<close>

fun set_prop :: "heap \<Rightarrow> jsval \<Rightarrow> string \<Rightarrow> jsval \<Rightarrow> heap" where
  "set_prop h (JRef a) k v =
     (if a < length h then h[a := (h ! a)\<lparr>props := AList.update k v (props (h ! a))\<rparr>] else h)"
| "set_prop h w k v = h"

text \<open>\<open>{ ...o }\<close> for an object or array \<open>o\<close>: a new plain object with the same own properties.\<close>

definition spread :: "heap \<Rightarrow> addr \<Rightarrow> jsval \<times> heap" where
  "spread h a = (JRef (length h), h @ [\<lparr>is_array = False, props = own_props h a\<rparr>])"

definition lower_char :: "char \<Rightarrow> char" where
  "lower_char c =
     (let n = (of_char c :: nat) in if 65 \<le> n \<and> n \<le> 90 then char_of (n + 32) else c)"

definition toLowerCase :: "string \<Rightarrow> string" where
  "toLowerCase s = map lower_char s"

text \<open>
  \<open>v.toLowerCase()\<close> on a truthy value: only a string has the method; on a number, a
  boolean, an object or an array the call is a \<open>TypeError\<close>.
\<close>

fun call_toLowerCase :: "jsval \<Rightarrow> js_error + string" where
  "call_toLowerCase (JStr s) = Inr (toLowerCase s)"
| "call_toLowerCase v = Inl TypeError"

definition bind_err :: "js_error + 'a \<Rightarrow> ('a \<Rightarrow> js_error + 'b) \<Rightarrow> js_error + 'b" where
  "bind_err m f = (case m of Inl e \<Rightarrow> Inl e | Inr x \<Rightarrow> f x)"

section \<open>The normalizer (\<open>normalizeAnalysisResult\<close>)\<close>

text \<open>
  The body of the function is a sequence of conditional assignments on the copy
  \<open>normalized\<close>. Three shapes occur:
  \<^item> \<open>if (n.k && typeof n.k === 'string') n.k = n.k.toLowerCase()\<close> (\<open>LowerTop k\<close>);
  \<^item> \<open>if (n.g?.k) n.g.k = n.g.k.toLowerCase()\<close>, with no test of the type
    (\<open>LowerNested g k\<close>);
  \<^item> \<open>if (n.g) { const q = n.g; if (q.k && typeof q.k === 'string') q.k = ...; ... }\<close>
    (\<open>LowerGroup g ks\<close>).
\<close>

datatype step =
    LowerTop string
  | LowerNested string string
  | LowerGroup string "string list"

definition lower_if_string :: "heap \<Rightarrow> jsval \<Rightarrow> string \<Rightarrow> heap" where
  "lower_if_string h ob k =
     (case get_prop h ob k of
        JStr s \<Rightarrow> if s \<noteq> [] then set_prop h ob k (JStr (toLowerCase s)) else h
      | _ \<Rightarrow> h)"

definition lower_nested :: "heap \<Rightarrow> jsval \<Rightarrow> string \<Rightarrow> string \<Rightarrow> js_error + heap" where
  "lower_nested h n g k =
     (let ob = get_prop h n g; v = opt_get h ob k in
      if truthy v
      then bind_err (call_toLowerCase v) (\<lambda>s. Inr (set_prop h ob k (JStr s)))
      else Inr h)"

definition lower_group :: "heap \<Rightarrow> jsval \<Rightarrow> string \<Rightarrow> string list \<Rightarrow> heap" where
  "lower_group h n g ks =
     (let quality = get_prop h n g in
      if truthy quality then foldl (\<lambda>h' k. lower_if_string h' quality k) h ks else h)"

fun run_step :: "jsval \<Rightarrow> heap \<Rightarrow> step \<Rightarrow> js_error + heap" where
  "run_step n h (LowerTop k) = Inr (lower_if_string h n k)"
| "run_step n h (LowerNested g k) = lower_nested h n g k"
| "run_step n h (LowerGroup g ks) = Inr (lower_group h n g ks)"

text \<open>
  Running the assignments in order. An exception ends the run; the assignments made
  before it stay in the store, so the store is returned in both cases.
\<close>

fun run_steps :: "jsval \<Rightarrow> heap \<Rightarrow> step list \<Rightarrow> js_error option \<times> heap" where
  "run_steps n h [] = (None, h)"
| "run_steps n h (s # ss) =
     (case run_step n h s of Inl e \<Rightarrow> (Some e, h) | Inr h' \<Rightarrow> run_steps n h' ss)"

definition normalize_steps :: "step list" where
  "normalize_steps =
     [ LowerTop ''accuracy_level'',
       LowerTop ''is_chat_completed'',
       LowerTop ''overall_latency_classification'',
       LowerNested ''human_escalation'' ''is_escalated'',
       LowerNested ''issue_status'' ''status'',
       LowerNested ''escalation_necessity'' ''was_escalation_necessary'',
       LowerNested ''bot_tone'' ''tone'',
       LowerNested ''user_sentiment'' ''sentiment'',
       LowerGroup ''response_quality''
         [''is_clear'', ''is_concise'', ''is_easy_to_understand'', ''is_relevant'',
          ''overall_quality_score''],
       LowerNested ''conversation_quality'' ''quality'' ]"

text \<open>
  The outcome is the returned value, or the exception thrown, together with the store
  after the call. A value that is falsy or not an object is returned as it is;
  otherwise the copy is returned.
\<close>

definition normalizeAnalysisResult :: "heap \<Rightarrow> jsval \<Rightarrow> (js_error + jsval) \<times> heap" where
  "normalizeAnalysisResult h result =
     (if \<not> truthy result \<or> \<not> typeof_object result then (Inr result, h)
      else case result of
          JRef a \<Rightarrow>
            (let (normalized, h0) = spread h a in
             case run_steps normalized h0 normalize_steps of
               (Some e, h') \<Rightarrow> (Inl e, h')
             | (None, h') \<Rightarrow> (Inr normalized, h'))
        | _ \<Rightarrow> (Inr result, h))"

section \<open>Numbers: IEEE double arithmetic\<close>

text \<open>
  A JavaScript number is an IEEE-754 double. The model writes a finite double as the
  rational it denotes and rounds the exact result of every operation to 53 significant
  bits, to nearest and ties to even (\<open>fl\<close>). Overflow and subnormal results are outside
  the model: the magnitudes this program computes with (scores up to 100, counts of
  sessions) are far from both. The two zeros of IEEE are one value here.
\<close>

definition pow2 :: "int \<Rightarrow> rat" where
  "pow2 e = (if 0 \<le> e then 2 ^ nat e else 1 / 2 ^ nat (- e))"

text \<open>
  For \<open>x > 0\<close>, the exponent \<open>e\<close> with \<open>2^e \<le> x < 2^(e+1)\<close>: halve down to below \<open>2\<close>
  when \<open>x \<ge> 1\<close>, double up to at least \<open>1\<close> otherwise.
\<close>

function lg_up :: "rat \<Rightarrow> int" where
  "lg_up x = (if x < 2 then 0 else 1 + lg_up (x / 2))"
  by pat_completeness auto
termination
proof (relation "measure (\<lambda>x. nat \<lfloor>x\<rfloor>)")
  show "wf (measure (\<lambda>x::rat. nat \<lfloor>x\<rfloor>))" by simp
next
  fix x :: rat
  assume "\<not> x < 2"
  then have "\<lfloor>x / 2\<rfloor> < \<lfloor>x\<rfloor>" and "0 < \<lfloor>x\<rfloor>"
    by linarith+
  then show "(x / 2, x) \<in> measure (\<lambda>x. nat \<lfloor>x\<rfloor>)"
    by simp
qed

function lg_down :: "rat \<Rightarrow> int" where
  "lg_down x = (if x \<le> 0 \<or> 1 \<le> x then 0 else lg_down (2 * x) - 1)"
  by pat_completeness auto
termination
proof (relation "measure (\<lambda>x. nat \<lceil>1 / x\<rceil>)")
  show "wf (measure (\<lambda>x::rat. nat \<lceil>1 / x\<rceil>))" by simp
next
  fix x :: rat
  assume a: "\<not> (x \<le> 0 \<or> 1 \<le> x)"
  then have x: "0 < x" "x < 1" by auto
  define y where "y = 1 / x"
  have y: "1 < y" using x by (simp add: y_def)
  have c: "y \<le> of_int \<lceil>y\<rceil>" by (rule le_of_int_ceiling)
  have "1 < \<lceil>y\<rceil>" using y by (simp add: less_ceiling_iff)
  then have c2: "(2::rat) \<le> of_int \<lceil>y\<rceil>" by linarith
  have "y / 2 \<le> of_int \<lceil>y\<rceil> - 1" using c c2 by linarith
  then have "\<lceil>y / 2\<rceil> < \<lceil>y\<rceil>" by (simp only: ceiling_less_iff)
  moreover have eq: "1 / (2 * x) = y / 2" by (simp add: y_def)
  ultimately have lt: "\<lceil>1 / (2 * x)\<rceil> < \<lceil>1 / x\<rceil>"
    by (simp only: y_def)
  have pos: "0 < \<lceil>1 / x\<rceil>" using \<open>1 < \<lceil>y\<rceil>\<close> by (simp only: y_def)
  show "(2 * x, x) \<in> measure (\<lambda>x. nat \<lceil>1 / x\<rceil>)"
    using lt pos by (simp only: in_measure zless_nat_conj)
qed

declare lg_up.simps [simp del] lg_down.simps [simp del]

definition ilog2 :: "rat \<Rightarrow> int" where
  "ilog2 x = (if 1 \<le> x then lg_up x else lg_down x)"

definition round_even :: "rat \<Rightarrow> int" where
  "round_even q =
     (let n = \<lfloor>q\<rfloor>; r = q - of_int n in
      if r < 1 / 2 then n else if 1 / 2 < r then n + 1 else if even n then n else n + 1)"

definition fl :: "rat \<Rightarrow> rat" where
  "fl x =
     (if x = 0 then 0
      else let a = \<bar>x\<bar>; u = pow2 (ilog2 a - 52) in sgn x * of_int (round_even (a / u)) * u)"

definition js_add :: "rat \<Rightarrow> rat \<Rightarrow> rat" where
  "js_add a b = fl (a + b)"

definition js_sub :: "rat \<Rightarrow> rat \<Rightarrow> rat" where
  "js_sub a b = fl (a - b)"

definition js_mul :: "rat \<Rightarrow> rat \<Rightarrow> rat" where
  "js_mul a b = fl (a * b)"

text \<open>\<open>a / b\<close>; every divisor in this program is a non-zero constant or a positive length.\<close>

definition js_div :: "rat \<Rightarrow> rat \<Rightarrow> rat" where
  "js_div a b = fl (a / b)"

text \<open>\<open>Math.round\<close>: the nearest integer, a tie going up.\<close>

definition Math_round :: "rat \<Rightarrow> rat" where
  "Math_round x = of_int \<lfloor>x + 1 / 2\<rfloor>"

definition Math_max :: "rat \<Rightarrow> rat \<Rightarrow> rat" where
  "Math_max a b = max a b"

text \<open>A decimal literal of the source denotes the double nearest to it.\<close>

definition lit :: "rat \<Rightarrow> rat" where
  "lit d = fl d"

section \<open>The scorer (\<open>calculateSessionScore\<close>)\<close>

text \<open>
  The local variables of the function that hold the points of each factor before
  weighting (\<open>issueResolutionScore\<close>, \<open>escalationScore\<close>, ...), and \<open>penalties\<close>.
\<close>

record factor_points =
  issueResolutionScore :: rat
  escalationScore :: rat
  userExperienceScore :: rat
  completionScore :: rat
  responseQualityScore :: rat
  accuracyScore :: rat
  componentScore :: rat
  sentimentScore :: rat
  effortScore :: rat
  toneScore :: rat
  penaltyPoints :: rat

text \<open>The object \<open>scoreBreakdown\<close>.\<close>

record score_breakdown =
  issueResolution :: rat
  escalationAvoidance :: rat
  userExperience :: rat
  chatCompletion :: rat
  responseQuality :: rat
  accuracy :: rat
  responseComponents :: rat
  userSentiment :: rat
  userEffort :: rat
  botTone :: rat
  penalties :: rat

text \<open>
  What the function returns: the number \<open>0\<close> for a falsy argument, otherwise the object
  \<open>{ totalScore, breakdown }\<close>.
\<close>

datatype score_result =
    ScoreNumber rat
  | ScoreRecord rat score_breakdown

text \<open>
  \<open>if (v) { score = v.toLowerCase() === target ? 100 : 0 }\<close>, the score being \<open>0\<close>
  before.
\<close>

definition match_score :: "jsval \<Rightarrow> string \<Rightarrow> js_error + rat" where
  "match_score v target =
     (if truthy v
      then bind_err (call_toLowerCase v) (\<lambda>s. Inr (if s = target then 100 else 0))
      else Inr 0)"

text \<open>\<open>if (v) { switch (v.toLowerCase()) { case ...: score = ...; default: score = d } }\<close>\<close>

definition switch_score :: "jsval \<Rightarrow> (string \<times> rat) list \<Rightarrow> rat \<Rightarrow> js_error + rat" where
  "switch_score v cases dflt =
     (if truthy v
      then bind_err (call_toLowerCase v)
             (\<lambda>s. Inr (case map_of cases s of Some p \<Rightarrow> p | None \<Rightarrow> dflt))
      else Inr 0)"

text \<open>
  \<open>if (v) { switch (v) { case 5: ...; default: score = 0 } }\<close>: \<open>switch\<close> compares with
  \<open>===\<close>, so only the number itself matches a case.
\<close>

definition level_score :: "jsval \<Rightarrow> (rat \<times> rat) list \<Rightarrow> rat" where
  "level_score v cases =
     (if truthy v
      then (case v of JNum n \<Rightarrow> (case map_of cases n of Some p \<Rightarrow> p | None \<Rightarrow> 0) | _ \<Rightarrow> 0)
      else 0)"

text \<open>The \<open>forEach\<close> over the four component flags, adding to \<open>componentPoints\<close>.\<close>

fun component_points :: "heap \<Rightarrow> jsval \<Rightarrow> string list \<Rightarrow> rat \<Rightarrow> js_error + rat" where
  "component_points h rq [] componentPoints = Inr componentPoints"
| "component_points h rq (component # cs) componentPoints =
     (if truthy (get_prop h rq component)
      then bind_err (call_toLowerCase (get_prop h rq component))
             (\<lambda>s. component_points h rq cs
                     (js_add componentPoints (if s = ''yes'' then 100 else 0)))
      else component_points h rq cs componentPoints)"

definition component_score :: "heap \<Rightarrow> jsval \<Rightarrow> js_error + rat" where
  "component_score h analysis =
     (let rq = get_prop h analysis ''response_quality'' in
      if truthy rq
      then bind_err
             (component_points h rq
                [''is_clear'', ''is_concise'', ''is_easy_to_understand'', ''is_relevant''] 0)
             (\<lambda>componentPoints. Inr (js_div componentPoints 4))
      else Inr 0)"

text \<open>
  The escalation-necessity penalty compares with \<open>===\<close> and without lower-casing; the
  latency penalty lower-cases first.
\<close>

definition necessity_penalty :: "heap \<Rightarrow> jsval \<Rightarrow> rat" where
  "necessity_penalty h analysis =
     (if opt_get h (get_prop h analysis ''escalation_necessity'') ''was_escalation_necessary''
           = JStr ''no''
         \<and> opt_get h (get_prop h analysis ''human_escalation'') ''is_escalated'' = JStr ''yes''
      then js_sub 0 10 else 0)"

definition latency_penalty :: "heap \<Rightarrow> jsval \<Rightarrow> rat \<Rightarrow> js_error + rat" where
  "latency_penalty h analysis pen =
     (let v = get_prop h analysis ''overall_latency_classification'' in
      if truthy v
      then bind_err (call_toLowerCase v)
             (\<lambda>latency. Inr (if latency = ''good'' then pen
                              else if latency = ''average'' then js_sub pen 2
                              else if latency = ''bad'' then js_sub pen 5
                              else pen))
      else Inr pen)"

text \<open>The factors in the order the function computes them; the first throw ends it.\<close>

definition score_factors :: "heap \<Rightarrow> jsval \<Rightarrow> js_error + factor_points" where
  "score_factors h analysis =
     bind_err (match_score (opt_get h (get_prop h analysis ''issue_status'') ''status'')
                 ''resolved'') (\<lambda>s1.
     bind_err (match_score (opt_get h (get_prop h analysis ''human_escalation'') ''is_escalated'')
                 ''no'') (\<lambda>s2.
     let s3 = level_score (opt_get h (get_prop h analysis ''user_experience'') ''experience_level'')
                [(5, 100), (4, 80), (3, 60), (2, 40), (1, 20)] in
     bind_err (match_score (get_prop h analysis ''is_chat_completed'') ''yes'') (\<lambda>s4.
     bind_err (switch_score
                 (opt_get h (get_prop h analysis ''response_quality'') ''overall_quality_score'')
                 [(''excellent'', 100), (''good'', 75), (''fair'', 50), (''poor'', 25)] 0) (\<lambda>s5.
     bind_err (switch_score (get_prop h analysis ''accuracy_level'')
                 [(''correct'', 100), (''partially correct'', 50), (''wrong'', 0)] 0) (\<lambda>s6.
     bind_err (component_score h analysis) (\<lambda>s7.
     bind_err (switch_score (opt_get h (get_prop h analysis ''user_sentiment'') ''sentiment'')
                 [(''positive'', 100), (''neutral'', 70), (''negative'', 30), (''frustrated'', 0)]
                 70) (\<lambda>s8.
     let s9 = level_score (opt_get h (get_prop h analysis ''user_effort'') ''effort_level'')
                [(1, 100), (2, 80), (3, 60), (4, 40), (5, 20)] in
     bind_err (switch_score (opt_get h (get_prop h analysis ''bot_tone'') ''tone'')
                 [(''professional'', 100), (''friendly'', 95), (''neutral'', 70),
                  (''inappropriate'', 0)] 70) (\<lambda>s10.
     bind_err (latency_penalty h analysis (necessity_penalty h analysis)) (\<lambda>pen.
     Inr \<lparr> issueResolutionScore = s1, escalationScore = s2, userExperienceScore = s3,
           completionScore = s4, responseQualityScore = s5, accuracyScore = s6,
           componentScore = s7, sentimentScore = s8, effortScore = s9, toneScore = s10,
           penaltyPoints = pen \<rparr>)))))))))"

text \<open>\<open>scoreBreakdown.x = xScore * weight\<close>, and \<open>scoreBreakdown.penalties = penalties\<close>.\<close>

definition breakdown_of :: "factor_points \<Rightarrow> score_breakdown" where
  "breakdown_of f =
     \<lparr> issueResolution = js_mul (issueResolutionScore f) (lit (25 / 100)),
       escalationAvoidance = js_mul (escalationScore f) (lit (20 / 100)),
       userExperience = js_mul (userExperienceScore f) (lit (15 / 100)),
       chatCompletion = js_mul (completionScore f) (lit (10 / 100)),
       responseQuality = js_mul (responseQualityScore f) (lit (8 / 100)),
       accuracy = js_mul (accuracyScore f) (lit (7 / 100)),
       responseComponents = js_mul (componentScore f) (lit (5 / 100)),
       userSentiment = js_mul (sentimentScore f) (lit (5 / 100)),
       userEffort = js_mul (effortScore f) (lit (3 / 100)),
       botTone = js_mul (toneScore f) (lit (2 / 100)),
       penalties = penaltyPoints f \<rparr>"

text \<open>
  \<open>totalScore\<close> before the penalties: it starts at \<open>0\<close> and each factor does
  \<open>totalScore += scoreBreakdown.x\<close>, in this order.
\<close>

definition weighted_sum :: "score_breakdown \<Rightarrow> rat" where
  "weighted_sum b =
     foldl js_add 0
       [issueResolution b, escalationAvoidance b, userExperience b, chatCompletion b,
        responseQuality b, accuracy b, responseComponents b, userSentiment b, userEffort b,
        botTone b]"

text \<open>\<open>Math.round(x * 100) / 100\<close>\<close>

definition round2 :: "rat \<Rightarrow> rat" where
  "round2 x = js_div (Math_round (js_mul x 100)) 100"

definition calculateSessionScore :: "heap \<Rightarrow> jsval \<Rightarrow> js_error + score_result" where
  "calculateSessionScore h analysis =
     (if \<not> truthy analysis then Inr (ScoreNumber 0)
      else bind_err (score_factors h analysis) (\<lambda>f.
        let scoreBreakdown = breakdown_of f;
            totalScore = js_add (weighted_sum scoreBreakdown) (penalties scoreBreakdown)
        in Inr (ScoreRecord (Math_max 0 (round2 totalScore)) scoreBreakdown)))"

section \<open>The aggregator (\<open>calculateAggregateStats\<close>)\<close>

text \<open>
  Each categorical field is counted in a plain object keyed by the observed value
  (\<open>stats.user_sentiment[sentiment] = (stats.user_sentiment[sentiment] || 0) + 1\<close>). A
  slot holds a count, except when the key is the name of a property inherited from
  \<open>Object.prototype\<close>: reading it gives a function or object, \<open>|| 0\<close> keeps that, and
  \<open>+ 1\<close> makes a string of it, which is then stored (\<open>Garbled\<close>) and later divides to
  \<open>NaN\<close>. The inherited \<open>__proto__\<close> is an accessor whose setter ignores a string, so
  that key is never stored. The list holds the own properties in the order they were
  added (\<open>Object.keys\<close> would move keys that are array indices to the front).
\<close>

datatype cnt = Count nat | Garbled

type_synonym tally = "(string \<times> cnt) list"

definition object_prototype_names :: "string list" where
  "object_prototype_names =
     [''constructor'', ''__defineGetter__'', ''__defineSetter__'', ''hasOwnProperty'',
      ''__lookupGetter__'', ''__lookupSetter__'', ''isPrototypeOf'', ''propertyIsEnumerable'',
      ''toString'', ''valueOf'', ''__proto__'', ''toLocaleString'']"

text \<open>\<open>obj[k] = (obj[k] || 0) + 1\<close>\<close>

definition bump :: "tally \<Rightarrow> string \<Rightarrow> tally" where
  "bump t k =
     (case map_of t k of
        Some (Count n) \<Rightarrow> AList.update k (Count (n + 1)) t
      | Some Garbled \<Rightarrow> AList.update k Garbled t
      | None \<Rightarrow>
          if k = ''__proto__'' then t
          else if k \<in> set object_prototype_names then t @ [(k, Garbled)]
          else t @ [(k, Count 1)])"

text \<open>\<open>if (v) { const k = v.toLowerCase(); obj[k] = (obj[k] || 0) + 1 }\<close>\<close>

definition tally_lower :: "jsval \<Rightarrow> tally \<Rightarrow> js_error + tally" where
  "tally_lower v t =
     (if truthy v then bind_err (call_toLowerCase v) (\<lambda>k. Inr (bump t k)) else Inr t)"

text \<open>
  \<open>v.toString()\<close> for a value that is not \<open>undefined\<close>: \<open>null\<close> has no properties; a
  boolean and a string print as themselves. The decimal form of a number and the
  \<open>toString\<close> of an object or array are not modelled.
\<close>

fun call_toString :: "jsval \<Rightarrow> js_error + string" where
  "call_toString (JBool b) = Inr (if b then ''true'' else ''false'')"
| "call_toString (JStr s) = Inr s"
| "call_toString JNull = Inl TypeError"
| "call_toString JUndefined = Inl TypeError"
| "call_toString (JNum n) = Inl Unmodelled"
| "call_toString (JRef a) = Inl Unmodelled"

text \<open>\<open>if (v !== undefined) { const k = v.toString(); obj[k] = (obj[k] || 0) + 1 }\<close>\<close>

definition tally_string :: "jsval \<Rightarrow> tally \<Rightarrow> js_error + tally" where
  "tally_string v t =
     (if v \<noteq> JUndefined then bind_err (call_toString v) (\<lambda>k. Inr (bump t k)) else Inr t)"

text \<open>\<open>if (v) levels.push(v)\<close>\<close>

definition push_level :: "jsval \<Rightarrow> jsval list \<Rightarrow> jsval list" where
  "push_level v levels = (if truthy v then levels @ [v] else levels)"

text \<open>An element of \<open>analysisResults\<close> (its \<open>timestamp\<close> is left out).\<close>

record session_result =
  r_sessionId :: jsval
  r_analysis :: jsval
  r_score :: score_result

text \<open>The local object \<open>stats\<close>.\<close>

record stats =
  chat_completion :: tally
  user_sentiment :: tally
  bot_tone :: tally
  anydesk_required :: tally
  user_experience_levels :: "jsval list"
  user_effort_levels :: "jsval list"
  accuracy_levels :: tally
  issue_resolution :: tally
  human_escalation :: tally

definition initial_stats :: stats where
  "initial_stats =
     \<lparr> chat_completion = [(''yes'', Count 0), (''no'', Count 0)],
       user_sentiment = [],
       bot_tone = [],
       anydesk_required = [(''true'', Count 0), (''false'', Count 0)],
       user_experience_levels = [],
       user_effort_levels = [],
       accuracy_levels = [],
       issue_resolution = [(''resolved'', Count 0), (''unresolved'', Count 0)],
       human_escalation = [(''yes'', Count 0), (''no'', Count 0)] \<rparr>"

text \<open>
  The body of \<open>analysisResults.forEach\<close>. Reading a property of \<open>result.analysis\<close>
  throws when the analysis is \<open>null\<close> or \<open>undefined\<close>.
\<close>

definition tally_result :: "heap \<Rightarrow> stats \<Rightarrow> session_result \<Rightarrow> js_error + stats" where
  "tally_result h st result =
     (let a = r_analysis result in
      if a = JUndefined \<or> a = JNull then Inl TypeError
      else
        bind_err (tally_lower (get_prop h a ''is_chat_completed'') (chat_completion st)) (\<lambda>cc.
        bind_err (tally_lower (opt_get h (get_prop h a ''user_sentiment'') ''sentiment'')
                    (user_sentiment st)) (\<lambda>us.
        bind_err (tally_lower (opt_get h (get_prop h a ''bot_tone'') ''tone'') (bot_tone st)) (\<lambda>bt.
        bind_err (tally_string
                    (opt_get h (get_prop h a ''conversation_quality'') ''is_anydesk_required'')
                    (anydesk_required st)) (\<lambda>ad.
        let xl = push_level (opt_get h (get_prop h a ''user_experience'') ''experience_level'')
                   (user_experience_levels st);
            el = push_level (opt_get h (get_prop h a ''user_effort'') ''effort_level'')
                   (user_effort_levels st) in
        bind_err (tally_lower (get_prop h a ''accuracy_level'') (accuracy_levels st)) (\<lambda>al.
        bind_err (tally_lower (opt_get h (get_prop h a ''issue_status'') ''status'')
                    (issue_resolution st)) (\<lambda>ir.
        bind_err (tally_lower (opt_get h (get_prop h a ''human_escalation'') ''is_escalated'')
                    (human_escalation st)) (\<lambda>he.
        Inr \<lparr> chat_completion = cc, user_sentiment = us, bot_tone = bt, anydesk_required = ad,
              user_experience_levels = xl, user_effort_levels = el, accuracy_levels = al,
              issue_resolution = ir, human_escalation = he \<rparr>))))))))"

fun collect_stats :: "heap \<Rightarrow> stats \<Rightarrow> session_result list \<Rightarrow> js_error + stats" where
  "collect_stats h st [] = Inr st"
| "collect_stats h st (r # rs) = bind_err (tally_result h st r) (\<lambda>st'. collect_stats h st' rs)"

text \<open>
  A percentage is the number \<open>Math.round((obj[key] / totalSessions) * 100)\<close>, which is
  \<open>NaN\<close> for a garbled slot.
\<close>

datatype pct = Percent rat | PercentNaN

definition percentage :: "nat \<Rightarrow> cnt \<Rightarrow> pct" where
  "percentage totalSessions c =
     (case c of
        Count n \<Rightarrow> Percent (Math_round (js_mul (js_div (of_nat n) (of_nat totalSessions)) 100))
      | Garbled \<Rightarrow> PercentNaN)"

definition convertToPercentages :: "nat \<Rightarrow> tally \<Rightarrow> (string \<times> pct) list" where
  "convertToPercentages totalSessions obj = map (\<lambda>(key, c). (key, percentage totalSessions c)) obj"

fun is_number :: "jsval \<Rightarrow> bool" where
  "is_number (JNum n) = True"
| "is_number v = False"

fun number_of :: "jsval \<Rightarrow> rat" where
  "number_of (JNum n) = n"
| "number_of v = 0"

text \<open>
  \<open>levels.length > 0 ? Math.round((levels.reduce((a, b) => a + b, 0) / levels.length) * 100) / 100 : 0\<close>.
  The collected levels are whatever truthy values the sessions carried; \<open>+\<close> on a value
  that is not a number goes through JavaScript's coercions, which are not modelled.
\<close>

definition average_level :: "jsval list \<Rightarrow> js_error + rat" where
  "average_level levels =
     (if levels = [] then Inr 0
      else if list_all is_number levels
      then Inr (round2 (js_div (foldl js_add 0 (map number_of levels)) (of_nat (length levels))))
      else Inl Unmodelled)"

record aggregate_stats =
  average_chat_completion_rate :: "(string \<times> pct) list"
  average_user_sentiment_distribution :: "(string \<times> pct) list"
  average_bot_tone_distribution :: "(string \<times> pct) list"
  average_anydesk_required :: "(string \<times> pct) list"
  average_user_experience_level :: rat
  average_user_effort_level :: rat
  average_response_accuracy :: "(string \<times> pct) list"
  average_issue_resolution_rate :: "(string \<times> pct) list"
  average_human_escalation_rate :: "(string \<times> pct) list"

text \<open>The caller always passes an array, so the \<open>!analysisResults\<close> test is its emptiness.\<close>

definition calculateAggregateStats :: "heap \<Rightarrow> session_result list \<Rightarrow> js_error + aggregate_stats" where
  "calculateAggregateStats h analysisResults =
     (if analysisResults = []
      then Inr \<lparr> average_chat_completion_rate = [(''yes'', Percent 0), (''no'', Percent 0)],
                 average_user_sentiment_distribution = [],
                 average_bot_tone_distribution = [],
                 average_anydesk_required = [(''true'', Percent 0), (''false'', Percent 0)],
                 average_user_experience_level = 0,
                 average_user_effort_level = 0,
                 average_response_accuracy = [],
                 average_issue_resolution_rate = [(''resolved'', Percent 0), (''unresolved'', Percent 0)],
                 average_human_escalation_rate = [(''yes'', Percent 0), (''no'', Percent 0)] \<rparr>
      else
        let totalSessions = length analysisResults in
        bind_err (collect_stats h initial_stats analysisResults) (\<lambda>st.
        bind_err (average_level (user_experience_levels st)) (\<lambda>xavg.
        bind_err (average_level (user_effort_levels st)) (\<lambda>eavg.
        Inr \<lparr> average_chat_completion_rate = convertToPercentages totalSessions (chat_completion st),
              average_user_sentiment_distribution =
                convertToPercentages totalSessions (user_sentiment st),
              average_bot_tone_distribution = convertToPercentages totalSessions (bot_tone st),
              average_anydesk_required = convertToPercentages totalSessions (anydesk_required st),
              average_user_experience_level = xavg,
              average_user_effort_level = eavg,
              average_response_accuracy = convertToPercentages totalSessions (accuracy_levels st),
              average_issue_resolution_rate =
                convertToPercentages totalSessions (issue_resolution st),
              average_human_escalation_rate =
                convertToPercentages totalSessions (human_escalation st) \<rparr>))))"

text \<open>The sum of the numeric counts of a field, and of its numeric percentages.\<close>

fun count_total :: "tally \<Rightarrow> nat" where
  "count_total [] = 0"
| "count_total ((k, Count n) # t) = n + count_total t"
| "count_total ((k, Garbled) # t) = count_total t"

fun percent_total :: "(string \<times> pct) list \<Rightarrow> rat" where
  "percent_total [] = 0"
| "percent_total ((k, Percent p) # d) = p + percent_total d"
| "percent_total ((k, PercentNaN) # d) = percent_total d"

section \<open>The session pipeline (\<open>POST /api/analyze-conversations\<close>)\<close>

text \<open>
  A stored session, as far as the loop reads it: \<open>s_mongo_id\<close> is the string that
  \<open>session._id?.toString()\<close> yields (\<open>None\<close> when \<open>_id\<close> is \<open>null\<close> or \<open>undefined\<close>),
  \<open>s_id\<close> is \<open>session.id\<close> and \<open>s_session_id\<close> is \<open>session.session_id\<close>.
\<close>

record session =
  s_mongo_id :: "string option"
  s_id :: jsval
  s_session_id :: jsval

text \<open>\<open>a || b\<close>\<close>

definition js_or :: "jsval \<Rightarrow> jsval \<Rightarrow> jsval" where
  "js_or a b = (if truthy a then a else b)"

text \<open>\<open>session._id?.toString() || session.id || session.session_id\<close>\<close>

definition session_identifier :: "session \<Rightarrow> jsval" where
  "session_identifier s =
     js_or (js_or (case s_mongo_id s of Some i \<Rightarrow> JStr i | None \<Rightarrow> JUndefined) (s_id s))
       (s_session_id s)"

text \<open>
  An element of \<open>failedSessions\<close>. Its \<open>error\<close> is the literal \<open>'No valid session ID'\<close>,
  or the \<open>message\<close> of what the \<open>try\<close> block threw: the error of the analysis call, or
  the exception of the normalizer or the scorer.
\<close>

datatype failure_reason =
    NoValidSessionId
  | CallFailed string
  | Thrown js_error

record failure =
  f_index :: nat
  f_sessionId :: "jsval option"
  f_error :: failure_reason

text \<open>The variables of the loop, and the store.\<close>

record loop_state =
  analysisResults :: "session_result list"
  failedSessions :: "failure list"
  processedCount :: nat
  store :: heap

text \<open>
  One iteration of the \<open>for\<close> loop, for the session at index \<open>i\<close>. The analysis call
  \<open>analyzeSession\<close> is a parameter: it returns \<open>response.data.result\<close>, a value whose
  objects are in the store, or throws an error with a message. The pacing delay and
  the time stamps have no part in the result and are left out.
\<close>

definition process_session ::
    "(jsval \<Rightarrow> string + jsval) \<Rightarrow> nat \<Rightarrow> session \<Rightarrow> loop_state \<Rightarrow> loop_state" where
  "process_session analyzeSession i s st =
     (let sessionId = session_identifier s in
      if \<not> truthy sessionId
      then st\<lparr>failedSessions := failedSessions st @
                 [\<lparr>f_index = i, f_sessionId = None, f_error = NoValidSessionId\<rparr>]\<rparr>
      else
        case analyzeSession sessionId of
          Inl message \<Rightarrow>
            st\<lparr>failedSessions := failedSessions st @
                 [\<lparr>f_index = i, f_sessionId = Some sessionId, f_error = CallFailed message\<rparr>]\<rparr>
        | Inr rawResult \<Rightarrow>
            (case normalizeAnalysisResult (store st) rawResult of
               (Inl e, h') \<Rightarrow>
                 st\<lparr>failedSessions := failedSessions st @
                      [\<lparr>f_index = i, f_sessionId = Some sessionId, f_error = Thrown e\<rparr>],
                    store := h'\<rparr>
             | (Inr normalizedResult, h') \<Rightarrow>
                 (case calculateSessionScore h' normalizedResult of
                    Inl e \<Rightarrow>
                      st\<lparr>failedSessions := failedSessions st @
                           [\<lparr>f_index = i, f_sessionId = Some sessionId, f_error = Thrown e\<rparr>],
                         store := h'\<rparr>
                  | Inr sessionScore \<Rightarrow>
                      st\<lparr>analysisResults := analysisResults st @
                           [\<lparr>r_sessionId = sessionId, r_analysis = normalizedResult,
                             r_score = sessionScore\<rparr>],
                         processedCount := processedCount st + 1,
                         store := h'\<rparr>)))"

fun process_sessions ::
    "(jsval \<Rightarrow> string + jsval) \<Rightarrow> nat \<Rightarrow> session list \<Rightarrow> loop_state \<Rightarrow> loop_state" where
  "process_sessions analyzeSession i [] st = st"
| "process_sessions analyzeSession i (s # ss) st =
     process_sessions analyzeSession (Suc i) ss (process_session analyzeSession i s st)"

text \<open>
  \<open>analysisResults.reduce((sum, result) => sum + result.score.totalScore, 0)\<close> divided
  by the number of results. A result whose score is the plain number \<open>0\<close> has no
  \<open>totalScore\<close>, and the sum is \<open>NaN\<close> from there on (\<open>None\<close>).
\<close>

definition add_total :: "rat option \<Rightarrow> session_result \<Rightarrow> rat option" where
  "add_total acc result =
     (case (acc, r_score result) of
        (Some s, ScoreRecord t b) \<Rightarrow> Some (js_add s t)
      | _ \<Rightarrow> None)"

definition overall_score :: "session_result list \<Rightarrow> rat option" where
  "overall_score results =
     (if results \<noteq> []
      then map_option (\<lambda>totalScore. js_div totalScore (of_nat (length results)))
             (foldl add_total (Some 0) results)
      else Some 0)"

text \<open>The \<open>data\<close> of the response (\<open>executionTime\<close> and \<open>dateRange\<close> are left out).\<close>

record report =
  rep_totalSessions :: nat
  rep_processedSessions :: nat
  rep_failedSessions :: nat
  rep_analysisResults :: "session_result list"
  rep_overallScore :: "rat option"
  rep_aggregateStats :: aggregate_stats
  rep_failedSessionDetails :: "failure list"

text \<open>
  The handler once the sessions are fetched. An exception outside the per-session
  \<open>try\<close> (the aggregation can throw) reaches the outer \<open>catch\<close>, which answers with
  status 500 and no report: that is the \<open>Inl\<close> result.
\<close>

definition analyze_conversations ::
    "(jsval \<Rightarrow> string + jsval) \<Rightarrow> heap \<Rightarrow> session list \<Rightarrow> js_error + report" where
  "analyze_conversations analyzeSession h sessions =
     (if sessions = []
      then bind_err (calculateAggregateStats h []) (\<lambda>aggregateStats.
             Inr \<lparr> rep_totalSessions = 0, rep_processedSessions = 0, rep_failedSessions = 0,
                   rep_analysisResults = [], rep_overallScore = Some 0,
                   rep_aggregateStats = aggregateStats, rep_failedSessionDetails = [] \<rparr>)
      else
        let st = process_sessions analyzeSession 0 sessions
                   \<lparr> analysisResults = [], failedSessions = [], processedCount = 0, store = h \<rparr>
        in bind_err (calculateAggregateStats (store st) (analysisResults st)) (\<lambda>aggregateStats.
             Inr \<lparr> rep_totalSessions = length sessions,
                   rep_processedSessions = processedCount st,
                   rep_failedSessions = length (failedSessions st),
                   rep_analysisResults = analysisResults st,
                   rep_overallScore = map_option round2 (overall_score (analysisResults st)),
                   rep_aggregateStats = aggregateStats,
                   rep_failedSessionDetails = failedSessions st \<rparr>))"

section \<open>The retrieval window (\<open>getChatSessions\<close>, \<open>parseDateInput\<close>)\<close>

text \<open>
  A \<open>Date\<close> is its time value, the milliseconds since 1970-01-01T00:00:00Z, or invalid
  (\<open>None\<close>). The civil-date arithmetic is that of the ECMAScript specification
  (\<open>DayFromYear\<close>, \<open>MakeDay\<close>, \<open>MakeTime\<close>, \<open>MakeDate\<close>).
\<close>

definition msPerDay :: int where
  "msPerDay = 86400000"

definition is_leap :: "int \<Rightarrow> bool" where
  "is_leap y = (y mod 4 = 0 \<and> (y mod 100 \<noteq> 0 \<or> y mod 400 = 0))"

definition days_in_month :: "int \<Rightarrow> int \<Rightarrow> int" where
  "days_in_month y m =
     (if m = 2 then (if is_leap y then 29 else 28)
      else if m = 4 \<or> m = 6 \<or> m = 9 \<or> m = 11 then 30 else 31)"

definition DayFromYear :: "int \<Rightarrow> int" where
  "DayFromYear y =
     365 * (y - 1970) + (y - 1969) div 4 - (y - 1901) div 100 + (y - 1601) div 400"

text \<open>The days of the year before month \<open>m\<close> (1 to 12).\<close>

definition days_before_month :: "int \<Rightarrow> int \<Rightarrow> int" where
  "days_before_month y m = sum_list (map (days_in_month y) [1 .. m - 1])"

definition MakeDay :: "int \<Rightarrow> int \<Rightarrow> int \<Rightarrow> int" where
  "MakeDay y m d = DayFromYear y + days_before_month y m + (d - 1)"

definition MakeTime :: "int \<Rightarrow> int \<Rightarrow> int \<Rightarrow> int \<Rightarrow> int" where
  "MakeTime hour minute sec ms = hour * 3600000 + minute * 60000 + sec * 1000 + ms"

definition digit_of :: "char \<Rightarrow> int option" where
  "digit_of c =
     (let n = (of_char c :: nat) in if 48 \<le> n \<and> n \<le> 57 then Some (int n - 48) else None)"

fun number_from :: "char list \<Rightarrow> int option" where
  "number_from [] = None"
| "number_from cs =
     foldl (\<lambda>acc c. case (acc, digit_of c) of (Some a, Some d) \<Rightarrow> Some (10 * a + d) | _ \<Rightarrow> None)
       (Some 0) cs"

text \<open>
  \<open>new Date(s)\<close> for the two ISO forms this program builds: the date-only form
  \<open>YYYY-MM-DD\<close>, which is UTC midnight of that day, and \<open>YYYY-MM-DDTHH:mm:ss.sssZ\<close>. A
  string of one of these shapes with a month, day, hour (above 23), minute or second
  out of range is an invalid date, as the specification has it. Any other string is
  outside the model (\<open>OtherFormat\<close>).
\<close>

datatype parsed_date = TimeValue int | InvalidDate | OtherFormat

definition date_part :: "string \<Rightarrow> int option" where
  "date_part s =
     (case (number_from (take 4 s), number_from (take 2 (drop 5 s)), number_from (take 2 (drop 8 s)))
      of (Some y, Some m, Some d) \<Rightarrow>
           if 1 \<le> m \<and> m \<le> 12 \<and> 1 \<le> d \<and> d \<le> days_in_month y m
           then Some (MakeDay y m d * msPerDay) else None
       | _ \<Rightarrow> None)"

definition time_part :: "string \<Rightarrow> int option" where
  "time_part s =
     (case (number_from (take 2 s), number_from (take 2 (drop 3 s)),
            number_from (take 2 (drop 6 s)), number_from (take 3 (drop 9 s)))
      of (Some hh, Some mm, Some ss, Some ms) \<Rightarrow>
           if hh \<le> 23 \<and> mm \<le> 59 \<and> ss \<le> 59 then Some (MakeTime hh mm ss ms) else None
       | _ \<Rightarrow> None)"

definition date_shape :: "string \<Rightarrow> bool" where
  "date_shape s =
     (length s = 10 \<and> s ! 4 = CHR ''-'' \<and> s ! 7 = CHR ''-''
      \<and> list_all (\<lambda>i. digit_of (s ! i) \<noteq> None) [0, 1, 2, 3, 5, 6, 8, 9])"

definition time_shape :: "string \<Rightarrow> bool" where
  "time_shape s =
     (length s = 14 \<and> s ! 0 = CHR ''T'' \<and> s ! 3 = CHR '':'' \<and> s ! 6 = CHR '':''
      \<and> s ! 9 = CHR ''.'' \<and> s ! 13 = CHR ''Z''
      \<and> list_all (\<lambda>i. digit_of (s ! i) \<noteq> None) [1, 2, 4, 5, 7, 8, 10, 11, 12])"

definition new_Date :: "string \<Rightarrow> parsed_date" where
  "new_Date s =
     (if date_shape s
      then (case date_part s of Some t \<Rightarrow> TimeValue t | None \<Rightarrow> InvalidDate)
      else if date_shape (take 10 s) \<and> time_shape (drop 10 s)
      then (case (date_part (take 10 s), time_part (drop 11 s)) of
              (Some t, Some u) \<Rightarrow> TimeValue (t + u)
            | _ \<Rightarrow> InvalidDate)
      else OtherFormat)"

text \<open>
  \<open>d.setUTCHours(h, m, s, ms)\<close> keeps the UTC day of \<open>d\<close> and replaces the time within
  it. \<open>d.setHours(h, m, s, ms)\<close> does the same in local time: \<open>offset\<close> is the local
  zone's distance east of UTC in milliseconds, taken as constant over the day.
\<close>

definition setUTCHours :: "int \<Rightarrow> int \<Rightarrow> int \<Rightarrow> int \<Rightarrow> int \<Rightarrow> int" where
  "setUTCHours t hour minute sec ms = (t div msPerDay) * msPerDay + MakeTime hour minute sec ms"

definition setHours :: "int \<Rightarrow> int \<Rightarrow> int \<Rightarrow> int \<Rightarrow> int \<Rightarrow> int \<Rightarrow> int" where
  "setHours offset t hour minute sec ms =
     ((t + offset) div msPerDay) * msPerDay + MakeTime hour minute sec ms - offset"

text \<open>
  \<open>getChatSessions(fromDate, toDate)\<close>: the bounds \<open>startDate\<close> and \<open>endDate\<close> of the
  query \<open>{ $gte: startDate, $lte: endDate }\<close>. An invalid date stays invalid under
  \<open>setHours\<close>.
\<close>

definition getChatSessions_window :: "int \<Rightarrow> string \<Rightarrow> string \<Rightarrow> parsed_date \<times> parsed_date" where
  "getChatSessions_window offset fromDate toDate =
     (let startDate = new_Date fromDate;
          endDate = (case new_Date toDate of
                       TimeValue t \<Rightarrow> TimeValue (setHours offset t 23 59 59 999)
                     | d \<Rightarrow> d)
      in (startDate, endDate))"

text \<open>
  \<open>parseDateInput(dateStr)\<close>: throws \<open>Invalid date format\<close> when the parsed date is
  invalid, and otherwise returns \<open>startDate\<close> and \<open>endDate\<close>.
\<close>

datatype date_error = InvalidDateFormat | DateOutsideModel

definition parseDateInput :: "string \<Rightarrow> date_error + int \<times> int" where
  "parseDateInput dateStr =
     (case new_Date (dateStr @ ''T00:00:00.000Z'') of
        TimeValue parsedDate \<Rightarrow>
          Inr (setUTCHours parsedDate 0 0 0 0, setUTCHours parsedDate 23 59 59 999)
      | InvalidDate \<Rightarrow> Inl InvalidDateFormat
      | OtherFormat \<Rightarrow> Inl DateOutsideModel)"

section \<open>Example inputs\<close>

text \<open>
  An analysis in which every factor has its best value:
  \<open>{ issue_status: { status: "resolved" }, human_escalation: { is_escalated: "no" },
  user_experience: { experience_level: 5 }, is_chat_completed: "yes", response_quality:
  { overall_quality_score: "excellent", is_clear: "yes", is_concise: "yes",
  is_easy_to_understand: "yes", is_relevant: "yes" }, accuracy_level: "correct",
  user_sentiment: { sentiment: "positive" }, user_effort: { effort_level: 1 }, bot_tone:
  { tone: "professional" } }\<close>, the object at address 7.
\<close>

definition best_store :: heap where
  "best_store =
    [ \<lparr>is_array = False, props = [(''status'', JStr ''resolved'')]\<rparr>,
      \<lparr>is_array = False, props = [(''is_escalated'', JStr ''no'')]\<rparr>,
      \<lparr>is_array = False, props = [(''experience_level'', JNum 5)]\<rparr>,
      \<lparr>is_array = False, props =
         [(''overall_quality_score'', JStr ''excellent''), (''is_clear'', JStr ''yes''),
          (''is_concise'', JStr ''yes''), (''is_easy_to_understand'', JStr ''yes''),
          (''is_relevant'', JStr ''yes'')]\<rparr>,
      \<lparr>is_array = False, props = [(''sentiment'', JStr ''positive'')]\<rparr>,
      \<lparr>is_array = False, props = [(''effort_level'', JNum 1)]\<rparr>,
      \<lparr>is_array = False, props = [(''tone'', JStr ''professional'')]\<rparr>,
      \<lparr>is_array = False, props =
         [(''issue_status'', JRef 0), (''human_escalation'', JRef 1),
          (''user_experience'', JRef 2), (''is_chat_completed'', JStr ''yes''),
          (''response_quality'', JRef 3), (''accuracy_level'', JStr ''correct''),
          (''user_sentiment'', JRef 4), (''user_effort'', JRef 5), (''bot_tone'', JRef 6)]\<rparr> ]"



text \<open>
  \<open>{ human_escalation: { is_escalated: "YES" } }\<close>: the nested object at address 0, the
  analysis at address 1.
\<close>

definition escalated_upper_store :: heap where
  "escalated_upper_store =
     [ \<lparr>is_array = False, props = [(''is_escalated'', JStr ''YES'')]\<rparr>,
       \<lparr>is_array = False, props = [(''human_escalation'', JRef 0)]\<rparr> ]"

text \<open>\<open>{ human_escalation: { is_escalated: true } }\<close>, the analysis at address 1.\<close>

definition escalated_true_store :: heap where
  "escalated_true_store =
     [ \<lparr>is_array = False, props = [(''is_escalated'', JBool True)]\<rparr>,
       \<lparr>is_array = False, props = [(''human_escalation'', JRef 0)]\<rparr> ]"

text \<open>\<open>{ is_chat_completed: true }\<close>, the analysis at address 0.\<close>

definition completed_true_store :: heap where
  "completed_true_store = [ \<lparr>is_array = False, props = [(''is_chat_completed'', JBool True)]\<rparr> ]"

section \<open>Notions used in the proofs\<close>

text \<open>What \<open>toLowerCase\<close> makes of a value if it is a string; any other value as it is.\<close>

fun lower_val :: "jsval \<Rightarrow> jsval" where
  "lower_val (JStr s) = JStr (toLowerCase s)"
| "lower_val v = v"

text \<open>
  \<open>lowered h h'\<close>: the store \<open>h'\<close> has the objects of \<open>h\<close>, each property holding the
  value it has in \<open>h\<close> or that value lower-cased.
\<close>

definition lowered :: "heap \<Rightarrow> heap \<Rightarrow> bool" where
  "lowered h h' \<longleftrightarrow>
     length h' = length h
     \<and> (\<forall>a < length h. is_array (h' ! a) = is_array (h ! a))
     \<and> (\<forall>a k. get_prop h' (JRef a) k = get_prop h (JRef a) k
              \<or> get_prop h' (JRef a) k = lower_val (get_prop h (JRef a) k))"

text \<open>A value is \<open>low\<close> when lower-casing leaves it as it is.\<close>

definition low :: "jsval \<Rightarrow> bool" where
  "low v \<longleftrightarrow> lower_val v = v"

text \<open>A value on which \<open>if (v) v.toLowerCase()\<close> does not throw: falsy, or a string.\<close>

definition calm :: "jsval \<Rightarrow> bool" where
  "calm v \<longleftrightarrow> \<not> truthy v \<or> (\<exists>s. v = JStr s)"

text \<open>A step is \<open>settled\<close> in a store when the values it looks at are already lower-case.\<close>

fun settled :: "jsval \<Rightarrow> heap \<Rightarrow> step \<Rightarrow> bool" where
  "settled n h (LowerTop k) = low (get_prop h n k)"
| "settled n h (LowerNested g k) =
     (low (opt_get h (get_prop h n g) k) \<and> calm (opt_get h (get_prop h n g) k))"
| "settled n h (LowerGroup g ks) =
     (truthy (get_prop h n g) \<longrightarrow> (\<forall>k \<in> set ks. low (get_prop h (get_prop h n g) k)))"

text \<open>
  Every reference stored in an object of the store points to an object of the store,
  as it does in any store a JavaScript program can build.
\<close>

definition heap_closed :: "heap \<Rightarrow> bool" where
  "heap_closed h =
     list_all (\<lambda>ob. list_all (\<lambda>(k, v). case v of JRef b \<Rightarrow> b < length h | _ \<Rightarrow> True) (props ob)) h"

text \<open>
  What a second normalization is expected to return for the value \<open>v\<close> a first one
  returned: for an object, a new object with the same kind and the same properties,
  the store otherwise as it was; any other value as it is.
\<close>

fun duplicate :: "heap \<Rightarrow> jsval \<Rightarrow> jsval \<times> heap" where
  "duplicate h (JRef a) = (JRef (length h), h @ [h ! a])"
| "duplicate h v = (v, h)"

text \<open>
  The value behind a reference, read out of the store as a tree down to depth \<open>n\<close>
  (\<open>TCut\<close> below that depth). Two values are the same for every observer when their
  trees agree at every depth.
\<close>

datatype jtree =
    TUndefined
  | TNull
  | TBool bool
  | TNum rat
  | TStr string
  | TObj bool "(string \<times> jtree) list"
  | TCut

fun snapshot :: "nat \<Rightarrow> heap \<Rightarrow> jsval \<Rightarrow> jtree" where
  "snapshot n h JUndefined = TUndefined"
| "snapshot n h JNull = TNull"
| "snapshot n h (JBool b) = TBool b"
| "snapshot n h (JNum r) = TNum r"
| "snapshot n h (JStr s) = TStr s"
| "snapshot 0 h (JRef a) = TCut"
| "snapshot (Suc n) h (JRef a) =
     (if a < length h
      then TObj (is_array (h ! a)) (map (\<lambda>p. (fst p, snapshot n h (snd p))) (props (h ! a)))
      else TCut)"

text \<open>The store after normalizing the analysis at address 1 of \<open>escalated_upper_store\<close>.\<close>

definition escalated_lower_store :: heap where
  "escalated_lower_store =
     [ \<lparr>is_array = False, props = [(''is_escalated'', JStr ''yes'')]\<rparr>,
       \<lparr>is_array = False, props = [(''human_escalation'', JRef 0)]\<rparr>,
       \<lparr>is_array = False, props = [(''human_escalation'', JRef 0)]\<rparr> ]"










definition zero_breakdown :: score_breakdown where
  "zero_breakdown =
     \<lparr> issueResolution = 0, escalationAvoidance = 0, userExperience = 0, chatCompletion = 0,
       responseQuality = 0, accuracy = 0, responseComponents = 0, userSentiment = 0,
       userEffort = 0, botTone = 0, penalties = 0 \<rparr>"









text \<open>The state of the loop after the whole batch, from the empty lists.\<close>

definition batch_state :: "(jsval \<Rightarrow> string + jsval) \<Rightarrow> heap \<Rightarrow> session list \<Rightarrow> loop_state" where
  "batch_state analyzeSession h sessions =
     process_sessions analyzeSession 0 sessions
       \<lparr> analysisResults = [], failedSessions = [], processedCount = 0, store = h \<rparr>"

text \<open>
  Three sessions \<open>a\<close>, \<open>b\<close>, \<open>c\<close>; the analysis call for \<open>b\<close> times out, the calls for
  \<open>a\<close> and \<open>c\<close> each answer \<open>{ is_chat_completed: "yes" }\<close> (addresses 0 and 1).
\<close>

definition three_store :: heap where
  "three_store =
     [ \<lparr>is_array = False, props = [(''is_chat_completed'', JStr ''yes'')]\<rparr>,
       \<lparr>is_array = False, props = [(''is_chat_completed'', JStr ''yes'')]\<rparr> ]"

definition three_sessions :: "session list" where
  "three_sessions =
     [ \<lparr>s_mongo_id = Some ''a'', s_id = JUndefined, s_session_id = JUndefined\<rparr>,
       \<lparr>s_mongo_id = Some ''b'', s_id = JUndefined, s_session_id = JUndefined\<rparr>,
       \<lparr>s_mongo_id = Some ''c'', s_id = JUndefined, s_session_id = JUndefined\<rparr> ]"

definition three_analyze :: "jsval \<Rightarrow> string + jsval" where
  "three_analyze sessionId =
     (if sessionId = JStr ''b'' then Inl ''timeout of 300000ms exceeded''
      else if sessionId = JStr ''a'' then Inr (JRef 0)
      else Inr (JRef 1))"

definition completed_score :: score_result where
  "completed_score = ScoreRecord 10 (zero_breakdown\<lparr>chatCompletion := 10\<rparr>)"

definition three_state :: loop_state where
  "three_state =
     \<lparr> analysisResults =
         [ \<lparr>r_sessionId = JStr ''a'', r_analysis = JRef 2, r_score = completed_score\<rparr>,
           \<lparr>r_sessionId = JStr ''c'', r_analysis = JRef 3, r_score = completed_score\<rparr> ],
       failedSessions =
         [ \<lparr>f_index = 1, f_sessionId = Some (JStr ''b''),
            f_error = CallFailed ''timeout of 300000ms exceeded''\<rparr> ],
       processedCount = 2,
       store = three_store @
         [ \<lparr>is_array = False, props = [(''is_chat_completed'', JStr ''yes'')]\<rparr>,
           \<lparr>is_array = False, props = [(''is_chat_completed'', JStr ''yes'')]\<rparr> ] \<rparr>"

definition three_report :: report where
  "three_report =
     \<lparr> rep_totalSessions = 3, rep_processedSessions = 2, rep_failedSessions = 1,
       rep_analysisResults = analysisResults three_state,
       rep_overallScore = Some 10,
       rep_aggregateStats =
         \<lparr> average_chat_completion_rate = [(''yes'', Percent 100), (''no'', Percent 0)],
           average_user_sentiment_distribution = [],
           average_bot_tone_distribution = [],
           average_anydesk_required = [(''true'', Percent 0), (''false'', Percent 0)],
           average_user_experience_level = 0,
           average_user_effort_level = 0,
           average_response_accuracy = [],
           average_issue_resolution_rate = [(''resolved'', Percent 0), (''unresolved'', Percent 0)],
           average_human_escalation_rate = [(''yes'', Percent 0), (''no'', Percent 0)] \<rparr>,
       rep_failedSessionDetails = failedSessions three_state \<rparr>"

section \<open>Evaluating the arithmetic\<close>

lemma floor_rat_numeral_div [simp]:
  "\<lfloor>(numeral a :: rat) / numeral b\<rfloor> = numeral a div numeral b"
  using floor_divide_of_int_eq [of "numeral a" "numeral b", where ?'a = rat] by simp

lemma floor_rat_neg_numeral_div [simp]:
  "\<lfloor>- (numeral a :: rat) / numeral b\<rfloor> = - numeral a div numeral b"
  using floor_divide_of_int_eq [of "- numeral a" "numeral b", where ?'a = rat] by simp

lemma floor_rat_one_div [simp]:
  "\<lfloor>(1 :: rat) / numeral b\<rfloor> = 1 div numeral b"
  using floor_divide_of_int_eq [of 1 "numeral b", where ?'a = rat] by simp





lemma bind_err_simps [simp]:
  "bind_err (Inr x) f = f x"
  "bind_err (Inl e) f = Inl e"
  by (simp_all add: bind_err_def)

lemma bind_err_Inr_iff:
  "bind_err m f = Inr y \<longleftrightarrow> (\<exists>x. m = Inr x \<and> f x = Inr y)"
  by (cases m) simp_all

section \<open>The scorer\<close>


lemmas scorer_eval = score_factors_def own_props_def opt_get_def match_score_def switch_score_def
  level_score_def component_score_def latency_penalty_def necessity_penalty_def toLowerCase_def
  lower_char_def








section \<open>Bounds on the rounded arithmetic\<close>

lemma pow2_pos [simp]: "0 < pow2 e"
  by (simp add: pow2_def)

lemma pow2_nonneg [simp]: "0 \<le> pow2 e"
  by (rule less_imp_le) (rule pow2_pos)



lemma pow2_0 [simp]: "pow2 0 = 1"
  by (simp add: pow2_def)














section \<open>The normalizer\<close>

lemma lower_char_idem: "lower_char (lower_char c) = lower_char c"
proof (cases "65 \<le> (of_char c :: nat) \<and> (of_char c :: nat) \<le> 90")
  case True
  then have "(of_char (char_of ((of_char c :: nat) + 32)) :: nat) = of_char c + 32"
    by (simp add: of_char_of)
  with True show ?thesis
    by (simp add: lower_char_def Let_def)
next
  case False
  then show ?thesis
    by (auto simp add: lower_char_def Let_def)
qed

lemma toLowerCase_idem: "toLowerCase (toLowerCase s) = toLowerCase s"
  by (simp add: toLowerCase_def lower_char_idem)

lemma toLowerCase_Nil_iff [simp]: "toLowerCase s = [] \<longleftrightarrow> s = []"
  by (simp add: toLowerCase_def)

lemma lower_val_idem [simp]: "lower_val (lower_val v) = lower_val v"
  by (cases v) (simp_all add: toLowerCase_idem)

lemma truthy_lower_val [simp]: "truthy (lower_val v) = truthy v"
  by (cases v) simp_all

lemma lower_val_Ref_iff [simp]: "lower_val v = JRef b \<longleftrightarrow> v = JRef b"
  by (cases v) simp_all

lemma Ref_lower_val_iff [simp]: "JRef b = lower_val v \<longleftrightarrow> v = JRef b"
  by (cases v) auto

lemma low_lower_val [simp]: "low (lower_val v)"
  by (simp add: low_def)

lemma low_simps [simp]:
  "low JUndefined" "low JNull" "low (JBool b)" "low (JNum r)" "low (JRef a)"
  "low (JStr s) \<longleftrightarrow> toLowerCase s = s"
  by (simp_all add: low_def)

lemma not_truthy_low: "\<not> truthy v \<Longrightarrow> low v"
  by (cases v) simp_all

lemma get_prop_non_ref: "\<forall>a. ob \<noteq> JRef a \<Longrightarrow> get_prop h ob k = JUndefined"
  by (cases ob) auto

lemma lowered_refl [simp]: "lowered h h"
  by (simp add: lowered_def)

lemma lowered_trans:
  assumes "lowered h1 h2" and "lowered h2 h3"
  shows "lowered h1 h3"
proof -
  have "get_prop h3 (JRef a) k = get_prop h1 (JRef a) k
        \<or> get_prop h3 (JRef a) k = lower_val (get_prop h1 (JRef a) k)" for a k
    using assms unfolding lowered_def by (metis lower_val_idem)
  with assms show ?thesis
    unfolding lowered_def by simp
qed

lemma lowered_is_array:
  "lowered h h' \<Longrightarrow> a < length h \<Longrightarrow> is_array (h' ! a) = is_array (h ! a)"
  by (simp add: lowered_def)

lemma lowered_length: "lowered h h' \<Longrightarrow> length h' = length h"
  by (simp add: lowered_def)

lemma lowered_get:
  "lowered h h' \<Longrightarrow>
   get_prop h' ob k = get_prop h ob k \<or> get_prop h' ob k = lower_val (get_prop h ob k)"
  by (cases ob) (auto simp: lowered_def)

lemma lowered_low_keeps:
  "lowered h h' \<Longrightarrow> low (get_prop h ob k) \<Longrightarrow> get_prop h' ob k = get_prop h ob k"
  using lowered_get [of h h' ob k] by (auto simp: low_def)

lemma length_set_prop [simp]: "length (set_prop h ob k v) = length h"
  by (cases ob) simp_all

lemma get_prop_defined_ref:
  "get_prop h ob k \<noteq> JUndefined \<Longrightarrow> \<exists>a. ob = JRef a \<and> a < length h"
  by (cases ob) (auto simp: own_props_def split: if_splits)

lemma get_prop_set_prop:
  "a < length h \<Longrightarrow>
   get_prop (set_prop h (JRef a) k v) (JRef a') k' =
     (if a' = a \<and> k' = k then v else get_prop h (JRef a') k')"
  by (auto simp: own_props_def update_conv' nth_list_update)

lemma set_prop_same:
  assumes "get_prop h ob k = v" and "v \<noteq> JUndefined"
  shows "set_prop h ob k v = h"
proof -
  from assms obtain a where a: "ob = JRef a" "a < length h"
    using get_prop_defined_ref [of h ob k] by auto
  with assms have "map_of (props (h ! a)) k = Some v"
    by (auto simp: own_props_def split: option.splits)
  then have "AList.update k v (props (h ! a)) = props (h ! a)"
    by (rule update_triv)
  with a show ?thesis
    by (simp add: list_update_same_conv)
qed

lemma is_array_set_prop:
  "b < length h \<Longrightarrow> is_array (set_prop h ob k v ! b) = is_array (h ! b)"
  by (cases ob) (auto simp: nth_list_update)

declare get_prop.simps [simp del] set_prop.simps [simp del]

lemma lowered_set_prop:
  assumes "get_prop h ob k = JStr s"
  shows "lowered h (set_prop h ob k (JStr (toLowerCase s)))"
proof -
  from assms obtain a where a: "ob = JRef a" "a < length h"
    using get_prop_defined_ref [of h ob k] by auto
  show ?thesis
    unfolding lowered_def a using a assms
    by (auto simp: get_prop_set_prop is_array_set_prop)
qed

lemma get_set_prop_same:
  assumes "get_prop h ob k = JStr s"
  shows "get_prop (set_prop h ob k v) ob k = v"
proof -
  from assms obtain a where a: "ob = JRef a" "a < length h"
    using get_prop_defined_ref [of h ob k] by auto
  then show ?thesis
    by (simp add: get_prop_set_prop)
qed

lemma lowered_lower_if_string: "lowered h (lower_if_string h ob k)"
  by (auto simp: lower_if_string_def lowered_set_prop split: jsval.splits)

lemma low_lower_if_string: "low (get_prop (lower_if_string h ob k) ob k)"
  by (auto simp: lower_if_string_def get_set_prop_same toLowerCase_idem split: jsval.splits)

lemma lower_if_string_low: "low (get_prop h ob k) \<Longrightarrow> lower_if_string h ob k = h"
  by (auto simp: lower_if_string_def set_prop_same split: jsval.splits)

lemma opt_get_eq: "opt_get h v k = get_prop h v k"
  by (cases v) (simp_all add: opt_get_def get_prop.simps)

lemma call_toLowerCase_Inr_iff:
  "call_toLowerCase v = Inr t \<longleftrightarrow> (\<exists>s. v = JStr s \<and> t = toLowerCase s)"
  by (cases v) auto

lemma lower_nested_Inr:
  assumes "lower_nested h n g k = Inr h1"
  shows "(\<not> truthy (get_prop h (get_prop h n g) k) \<and> h1 = h)
         \<or> (\<exists>s. get_prop h (get_prop h n g) k = JStr s \<and> s \<noteq> []
                \<and> h1 = set_prop h (get_prop h n g) k (JStr (toLowerCase s)))"
  using assms
  by (auto simp: lower_nested_def opt_get_eq Let_def bind_err_Inr_iff call_toLowerCase_Inr_iff
           split: if_splits)

lemma lowered_foldl_lower:
  "lowered h (foldl (\<lambda>h' k. lower_if_string h' q k) h ks)"
proof (induction ks arbitrary: h)
  case Nil
  show ?case by simp
next
  case (Cons k ks)
  show ?case
    using lowered_trans [OF lowered_lower_if_string Cons.IH] by simp
qed

lemma low_foldl_lower:
  "\<forall>k \<in> set ks. low (get_prop (foldl (\<lambda>h' k. lower_if_string h' q k) h ks) q k)"
proof (induction ks arbitrary: h)
  case Nil
  show ?case by simp
next
  case (Cons k ks)
  let ?h1 = "lower_if_string h q k"
  let ?h2 = "foldl (\<lambda>h' k. lower_if_string h' q k) ?h1 ks"
  have "low (get_prop ?h1 q k)" by (rule low_lower_if_string)
  moreover have "lowered ?h1 ?h2" by (rule lowered_foldl_lower)
  ultimately have "low (get_prop ?h2 q k)"
    by (simp add: lowered_low_keeps)
  with Cons.IH [of ?h1] show ?case by simp
qed

lemma noop_foldl_lower:
  "\<forall>k \<in> set ks. low (get_prop h q k) \<Longrightarrow> foldl (\<lambda>h' k. lower_if_string h' q k) h ks = h"
  by (induction ks) (simp_all add: lower_if_string_low)

lemma run_step_lowered:
  assumes "run_step n h s = Inr h1"
  shows "lowered h h1"
proof (cases s)
  case (LowerTop k)
  with assms show ?thesis by (auto simp: lowered_lower_if_string)
next
  case (LowerNested g k)
  with assms have "lower_nested h n g k = Inr h1" by simp
  from lower_nested_Inr [OF this] show ?thesis
    by (auto simp: lowered_set_prop)
next
  case (LowerGroup g ks)
  with assms show ?thesis
    by (auto simp: lower_group_def Let_def lowered_foldl_lower)
qed

lemma lowered_ref_keeps:
  assumes "lowered h h'" and "get_prop h ob k = JRef b"
  shows "get_prop h' ob k = JRef b"
  using lowered_low_keeps [OF assms(1), of ob k] assms(2) by simp

lemma lowered_non_ref_keeps:
  assumes "lowered h h'" and "\<forall>b. get_prop h ob k \<noteq> JRef b"
  shows "\<forall>b. get_prop h' ob k \<noteq> JRef b"
  using lowered_get [OF assms(1), of ob k] assms(2) by auto

lemma is_ref_cases: "(\<exists>b. v = JRef b) \<or> (\<forall>b. v \<noteq> JRef b)"
  by blast

lemma run_step_settled:
  assumes "run_step n h s = Inr h1"
  shows "settled n h1 s"
proof (cases s)
  case (LowerTop k)
  with assms show ?thesis by (auto simp: low_lower_if_string)
next
  case (LowerNested g k)
  with assms have r: "lower_nested h n g k = Inr h1" by simp
  let ?ob = "get_prop h n g"
  from lower_nested_Inr [OF r] show ?thesis
  proof
    assume "\<not> truthy (get_prop h ?ob k) \<and> h1 = h"
    then show ?thesis
      by (simp add: LowerNested opt_get_eq not_truthy_low calm_def)
  next
    assume "\<exists>s. get_prop h ?ob k = JStr s \<and> s \<noteq> []
               \<and> h1 = set_prop h ?ob k (JStr (toLowerCase s))"
    then obtain t where t: "get_prop h ?ob k = JStr t"
      and h1: "h1 = set_prop h ?ob k (JStr (toLowerCase t))" by blast
    from t obtain b where b: "?ob = JRef b"
      using get_prop_defined_ref [of h ?ob k] by auto
    have "lowered h h1" using assms by (rule run_step_lowered)
    then have ob1: "get_prop h1 n g = ?ob"
      using b by (simp add: lowered_ref_keeps)
    have "get_prop h1 ?ob k = JStr (toLowerCase t)"
      unfolding h1 using t by (rule get_set_prop_same)
    with ob1 show ?thesis
      by (simp add: LowerNested opt_get_eq toLowerCase_idem calm_def)
  qed
next
  case (LowerGroup g ks)
  let ?q = "get_prop h n g"
  show ?thesis
  proof (cases "truthy ?q")
    case False
    with assms LowerGroup show ?thesis
      by (auto simp: lower_group_def)
  next
    case True
    with assms LowerGroup have h1: "h1 = foldl (\<lambda>h' k. lower_if_string h' ?q k) h ks"
      by (auto simp: lower_group_def)
    have l: "lowered h h1" using assms by (rule run_step_lowered)
    from is_ref_cases [of ?q] show ?thesis
    proof
      assume "\<exists>b. ?q = JRef b"
      then obtain b where b: "?q = JRef b" ..
      with l have "get_prop h1 n g = ?q" by (simp add: lowered_ref_keeps)
      then show ?thesis
        using low_foldl_lower [of ks ?q h] by (simp add: LowerGroup h1)
    next
      assume "\<forall>b. ?q \<noteq> JRef b"
      with l have "\<forall>b. get_prop h1 n g \<noteq> JRef b" by (rule lowered_non_ref_keeps)
      then show ?thesis
        by (simp add: LowerGroup get_prop_non_ref)
    qed
  qed
qed

lemma settled_lowered:
  assumes "settled n h1 s" and l: "lowered h1 h2"
  shows "settled n h2 s"
proof (cases s)
  case (LowerTop k)
  with assms show ?thesis by (simp add: lowered_low_keeps)
next
  case (LowerNested g k)
  let ?ob = "get_prop h1 n g"
  from is_ref_cases [of ?ob] show ?thesis
  proof
    assume "\<exists>b. ?ob = JRef b"
    then obtain b where b: "?ob = JRef b" ..
    with l have "get_prop h2 n g = ?ob" by (simp add: lowered_ref_keeps)
    moreover have "get_prop h2 ?ob k = get_prop h1 ?ob k"
      using assms LowerNested by (simp add: opt_get_eq lowered_low_keeps)
    ultimately show ?thesis
      using assms LowerNested by (simp add: opt_get_eq)
  next
    assume "\<forall>b. ?ob \<noteq> JRef b"
    with l have "\<forall>b. get_prop h2 n g \<noteq> JRef b" by (rule lowered_non_ref_keeps)
    then show ?thesis
      by (simp add: LowerNested opt_get_eq get_prop_non_ref calm_def)
  qed
next
  case (LowerGroup g ks)
  let ?q = "get_prop h1 n g"
  from is_ref_cases [of ?q] show ?thesis
  proof
    assume "\<exists>b. ?q = JRef b"
    then obtain b where b: "?q = JRef b" ..
    with l have "get_prop h2 n g = ?q" by (simp add: lowered_ref_keeps)
    then show ?thesis
      using assms LowerGroup b by (auto simp: lowered_low_keeps)
  next
    assume "\<forall>b. ?q \<noteq> JRef b"
    with l have "\<forall>b. get_prop h2 n g \<noteq> JRef b" by (rule lowered_non_ref_keeps)
    then show ?thesis
      by (simp add: LowerGroup get_prop_non_ref)
  qed
qed

lemma settled_noop:
  assumes "settled n h s"
  shows "run_step n h s = Inr h"
proof (cases s)
  case (LowerTop k)
  with assms show ?thesis by (simp add: lower_if_string_low)
next
  case (LowerNested g k)
  let ?v = "get_prop h (get_prop h n g) k"
  from assms LowerNested have lv: "low ?v" and cv: "calm ?v"
    by (simp_all add: opt_get_eq)
  show ?thesis
  proof (cases "truthy ?v")
    case False
    then show ?thesis
      by (simp add: LowerNested lower_nested_def opt_get_eq)
  next
    case True
    with cv obtain t where t: "?v = JStr t" by (auto simp: calm_def)
    with lv have "toLowerCase t = t" by simp
    moreover have "set_prop h (get_prop h n g) k (JStr t) = h"
      using t by (intro set_prop_same) simp_all
    ultimately show ?thesis
      using True t by (simp add: LowerNested lower_nested_def opt_get_eq)
  qed
next
  case (LowerGroup g ks)
  with assms show ?thesis
    by (auto simp: lower_group_def Let_def noop_foldl_lower)
qed

lemma run_steps_settles:
  assumes "run_steps n h ss = (None, h')"
  shows "lowered h h' \<and> (\<forall>s \<in> set ss. settled n h' s)"
  using assms
proof (induction ss arbitrary: h)
  case Nil
  then show ?case by simp
next
  case (Cons s ss)
  from Cons.prems obtain h1 where s1: "run_step n h s = Inr h1"
    and rest: "run_steps n h1 ss = (None, h')"
    by (auto split: sum.splits)
  from Cons.IH [OF rest] have l: "lowered h1 h'" and st: "\<forall>s \<in> set ss. settled n h' s"
    by simp_all
  have "lowered h h'"
    using run_step_lowered [OF s1] l by (rule lowered_trans)
  moreover have "settled n h' s"
    using run_step_settled [OF s1] l by (rule settled_lowered)
  ultimately show ?case using st by simp
qed

lemma run_steps_noop:
  "\<forall>s \<in> set ss. settled n h s \<Longrightarrow> run_steps n h ss = (None, h)"
  by (induction ss) (simp_all add: settled_noop)

lemma heap_closed_iff:
  "heap_closed h \<longleftrightarrow>
     (\<forall>a < length h. \<forall>k b. (k, JRef b) \<in> set (props (h ! a)) \<longrightarrow> b < length h)"
proof
  assume c: "heap_closed h"
  show "\<forall>a < length h. \<forall>k b. (k, JRef b) \<in> set (props (h ! a)) \<longrightarrow> b < length h"
  proof (intro allI impI)
    fix a k b
    assume "a < length h" and m: "(k, JRef b) \<in> set (props (h ! a))"
    with c have "list_all (\<lambda>(k, v). case v of JRef b \<Rightarrow> b < length h | _ \<Rightarrow> True) (props (h ! a))"
      by (simp add: heap_closed_def list_all_length)
    with m show "b < length h"
      by (auto simp: list_all_iff)
  qed
next
  assume r: "\<forall>a < length h. \<forall>k b. (k, JRef b) \<in> set (props (h ! a)) \<longrightarrow> b < length h"
  have ok: "case v of JRef b \<Rightarrow> b < length h | _ \<Rightarrow> True"
    if "a < length h" and "(k, v) \<in> set (props (h ! a))" for a k v
    using r that by (cases v) auto
  show "heap_closed h"
    unfolding heap_closed_def list_all_iff
  proof (intro ballI)
    fix ob p
    assume "ob \<in> set h" and p: "p \<in> set (props ob)"
    then obtain a where a: "a < length h" "h ! a = ob"
      by (auto simp: in_set_conv_nth)
    with p have "(fst p, snd p) \<in> set (props (h ! a))" by simp
    from ok [OF a(1) this] show "case p of (k, v) \<Rightarrow> case v of JRef b \<Rightarrow> b < length h | _ \<Rightarrow> True"
      by (simp add: case_prod_beta)
  qed
qed

lemma heap_closed_get:
  assumes "heap_closed h" and "get_prop h (JRef a) k = JRef b"
  shows "b < length h"
proof -
  from assms(2) have a: "a < length h" and m: "map_of (props (h ! a)) k = Some (JRef b)"
    by (auto simp: get_prop.simps own_props_def split: if_splits option.splits)
  from m have "(k, JRef b) \<in> set (props (h ! a))" by (rule map_of_SomeD)
  with assms(1) a show ?thesis
    by (auto simp: heap_closed_iff)
qed

lemma get_prop_append_old:
  "b < length h \<Longrightarrow> get_prop (h @ [c]) (JRef b) k = get_prop h (JRef b) k"
  by (simp add: get_prop.simps own_props_def nth_append)

lemma get_prop_copy:
  "a < length h \<Longrightarrow>
   get_prop (h @ [\<lparr>is_array = f, props = own_props h a\<rparr>]) (JRef (length h)) k
     = get_prop h (JRef a) k"
  by (simp add: get_prop.simps own_props_def)

lemma get_prop_append_value:
  assumes "\<forall>b. ob = JRef b \<longrightarrow> b < length h"
  shows "get_prop (h @ [c]) ob k = get_prop h ob k"
proof (cases ob)
  case (JRef b)
  with assms show ?thesis by (simp add: get_prop_append_old)
qed (simp_all add: get_prop.simps)

lemma settled_copy:
  assumes s: "settled (JRef a) h s" and a: "a < length h"
    and c: "\<forall>g b. get_prop h (JRef a) g = JRef b \<longrightarrow> b < length h"
  shows "settled (JRef (length h)) (h @ [\<lparr>is_array = f, props = own_props h a\<rparr>]) s"
proof -
  let ?h2 = "h @ [\<lparr>is_array = f, props = own_props h a\<rparr>]"
  have top: "get_prop ?h2 (JRef (length h)) g = get_prop h (JRef a) g" for g
    using a by (rule get_prop_copy)
  have nested: "get_prop ?h2 (get_prop h (JRef a) g) k = get_prop h (get_prop h (JRef a) g) k"
    for g k
    using c by (intro get_prop_append_value) blast
  show ?thesis
    using s by (cases s) (simp_all add: top nested opt_get_eq)
qed

lemma jsobj_rebuild: "is_array r = f \<Longrightarrow> \<lparr>is_array = f, props = props r\<rparr> = r"
  by (cases r) simp

lemma set_update_subset: "set (AList.update k v ps) \<subseteq> insert (k, v) (set ps)"
  by (induction ps) auto

lemma heap_closed_set_prop:
  assumes "heap_closed h" and "\<forall>b. v \<noteq> JRef b"
  shows "heap_closed (set_prop h ob k v)"
proof (cases ob)
  case (JRef a)
  show ?thesis
    unfolding heap_closed_iff
  proof (intro allI impI)
    fix a' k' b
    assume a': "a' < length (set_prop h ob k v)"
      and m: "(k', JRef b) \<in> set (props (set_prop h ob k v ! a'))"
    have "(k', JRef b) \<in> set (props (h ! a'))"
    proof (cases "a' = a \<and> a < length h")
      case True
      with m JRef have "(k', JRef b) \<in> set (AList.update k v (props (h ! a)))"
        by (simp add: set_prop.simps)
      with set_update_subset [of k v "props (h ! a)"] assms(2) True show ?thesis
        by auto
    next
      case False
      with m JRef a' show ?thesis
        by (auto simp: set_prop.simps nth_list_update split: if_splits)
    qed
    with assms(1) a' show "b < length (set_prop h ob k v)"
      by (auto simp: heap_closed_iff)
  qed
qed (simp_all add: set_prop.simps assms)

lemma heap_closed_lower_if_string: "heap_closed h \<Longrightarrow> heap_closed (lower_if_string h ob k)"
  by (auto simp: lower_if_string_def heap_closed_set_prop split: jsval.splits)

lemma heap_closed_run_step:
  assumes "heap_closed h" and "run_step n h s = Inr h1"
  shows "heap_closed h1"
proof (cases s)
  case (LowerTop k)
  with assms show ?thesis by (auto simp: heap_closed_lower_if_string)
next
  case (LowerNested g k)
  with assms have "lower_nested h n g k = Inr h1" by simp
  from lower_nested_Inr [OF this] assms(1) show ?thesis
    by (auto simp: heap_closed_set_prop)
next
  case (LowerGroup g ks)
  have "heap_closed (foldl (\<lambda>h' k. lower_if_string h' q k) h' ks)" if "heap_closed h'" for q h'
    using that by (induction ks arbitrary: h') (simp_all add: heap_closed_lower_if_string)
  with assms LowerGroup show ?thesis
    by (auto simp: lower_group_def Let_def)
qed

lemma heap_closed_run_steps:
  "heap_closed h \<Longrightarrow> run_steps n h ss = (None, h') \<Longrightarrow> heap_closed h'"
proof (induction ss arbitrary: h)
  case Nil
  then show ?case by simp
next
  case (Cons s ss)
  from Cons.prems(2) obtain h1 where s1: "run_step n h s = Inr h1"
    and rest: "run_steps n h1 ss = (None, h')"
    by (auto split: sum.splits)
  from Cons.prems(1) s1 have "heap_closed h1" by (rule heap_closed_run_step)
  then show ?case using rest by (rule Cons.IH)
qed

lemma heap_closed_spread:
  assumes "heap_closed h"
  shows "heap_closed (h @ [\<lparr>is_array = f, props = own_props h a\<rparr>])"
  unfolding heap_closed_iff
proof (intro allI impI)
  fix a' k b
  let ?h0 = "h @ [\<lparr>is_array = f, props = own_props h a\<rparr>]"
  assume a': "a' < length ?h0" and m: "(k, JRef b) \<in> set (props (?h0 ! a'))"
  have "b < length h"
  proof (cases "a' < length h")
    case True
    with m assms show ?thesis by (auto simp: heap_closed_iff nth_append)
  next
    case False
    with a' have "a' = length h" by simp
    with m have "(k, JRef b) \<in> set (own_props h a)" by simp
    with assms show ?thesis
      by (auto simp: heap_closed_iff own_props_def split: if_splits)
  qed
  then show "b < length ?h0" by simp
qed

lemma snapshot_append:
  assumes "heap_closed h"
  shows "(\<forall>b. v = JRef b \<longrightarrow> b < length h) \<Longrightarrow> snapshot n (h @ [c]) v = snapshot n h v"
proof (induction n arbitrary: v)
  case 0
  then show ?case by (cases v) simp_all
next
  case (Suc n)
  show ?case
  proof (cases v)
    case (JRef a)
    with Suc.prems have a: "a < length h" by simp
    have "snapshot n (h @ [c]) (snd p) = snapshot n h (snd p)" if "p \<in> set (props (h ! a))" for p
    proof (rule Suc.IH, intro allI impI)
      fix b
      assume "snd p = JRef b"
      with that have "(fst p, JRef b) \<in> set (props (h ! a))"
        by (metis prod.collapse)
      with assms a show "b < length h" by (auto simp: heap_closed_iff)
    qed
    with a JRef show ?thesis
      by (simp add: nth_append)
  qed simp_all
qed

lemma snapshot_duplicate:
  assumes "heap_closed h" and a: "a < length h"
  shows "snapshot n (h @ [h ! a]) (JRef (length h)) = snapshot n h (JRef a)"
proof (cases n)
  case 0
  then show ?thesis by simp
next
  case (Suc m)
  have "snapshot m (h @ [h ! a]) (snd p) = snapshot m h (snd p)" if "p \<in> set (props (h ! a))" for p
  proof (rule snapshot_append [OF assms(1)], intro allI impI)
    fix b
    assume "snd p = JRef b"
    with that have "(fst p, JRef b) \<in> set (props (h ! a))"
      by (metis prod.collapse)
    with assms show "b < length h" by (auto simp: heap_closed_iff)
  qed
  with a Suc show ?thesis
    by simp
qed

text \<open>
  Claim C2. Normalization is idempotent. Let a first normalization of \<open>x\<close> return \<open>v\<close>
  and leave the store \<open>h'\<close>. Then normalizing \<open>v\<close> returns again: a value that is not
  an object comes back as it is, and for an object the call returns a new object with
  the properties of \<open>v\<close> and changes nothing else in the store. Read out of the store
  to any depth, the second result is the same tree as the first. (When the first
  normalization throws there is no value to normalize again.)
\<close>

theorem normalize_idempotent:
  assumes closed: "heap_closed h" and first: "normalizeAnalysisResult h x = (Inr v, h')"
  shows "normalizeAnalysisResult h' v = (Inr (fst (duplicate h' v)), snd (duplicate h' v))
         \<and> (\<forall>n. snapshot n (snd (duplicate h' v)) (fst (duplicate h' v)) = snapshot n h' v)"
proof (cases "truthy x \<and> typeof_object x")
  case False
  with first have "v = x" "h' = h"
    by (auto simp: normalizeAnalysisResult_def)
  moreover from False have "\<forall>a. x \<noteq> JRef a" by auto
  then have "duplicate h x = (x, h)" by (cases x) simp_all
  ultimately show ?thesis
    using False by (auto simp: normalizeAnalysisResult_def)
next
  case True
  then obtain a0 where x: "x = JRef a0" by (cases x) simp_all
  let ?n = "JRef (length h)"
  let ?h0 = "h @ [\<lparr>is_array = False, props = own_props h a0\<rparr>]"
  from first x have run: "run_steps ?n ?h0 normalize_steps = (None, h')" and v: "v = ?n"
    by (auto simp: normalizeAnalysisResult_def spread_def split: prod.splits option.splits)
  from run_steps_settles [OF run]
  have l: "lowered ?h0 h'" and st: "\<forall>s \<in> set normalize_steps. settled ?n h' s"
    by simp_all
  from l have len: "length h' = Suc (length h)"
    by (simp add: lowered_length)
  have arr: "is_array (h' ! length h) = False"
    using lowered_is_array [OF l, of "length h"] by simp
  have "heap_closed ?h0" using closed by (rule heap_closed_spread)
  then have closed': "heap_closed h'" using run by (rule heap_closed_run_steps)
  have refs: "\<forall>g b. get_prop h' ?n g = JRef b \<longrightarrow> b < length h'"
    using closed' by (auto dest: heap_closed_get)
  let ?h2 = "h' @ [\<lparr>is_array = False, props = own_props h' (length h)\<rparr>]"
  have "\<forall>s \<in> set normalize_steps. settled (JRef (length h')) ?h2 s"
  proof
    fix s
    assume "s \<in> set normalize_steps"
    with st have "settled ?n h' s" ..
    moreover have "length h < length h'" using len by simp
    ultimately show "settled (JRef (length h')) ?h2 s"
      using refs by (rule settled_copy)
  qed
  then have run2: "run_steps (JRef (length h')) ?h2 normalize_steps = (None, ?h2)"
    by (rule run_steps_noop)
  have "\<lparr>is_array = False, props = own_props h' (length h)\<rparr> = h' ! length h"
    using arr len by (simp add: own_props_def jsobj_rebuild)
  then have dup: "duplicate h' v = (JRef (length h'), ?h2)"
    and h2: "?h2 = h' @ [h' ! length h]"
    by (simp_all add: v)
  have "snapshot n ?h2 (JRef (length h')) = snapshot n h' v" for n
    unfolding h2 v using closed' len by (intro snapshot_duplicate) simp_all
  then show ?thesis
    using run2 dup by (simp add: normalizeAnalysisResult_def v spread_def)
qed

lemma normalize_escalated_upper:
  "normalizeAnalysisResult escalated_upper_store (JRef 1) = (Inr (JRef 2), escalated_lower_store)"
  by code_simp

lemma closed_escalated_upper: "heap_closed escalated_upper_store"
  by code_simp

theorem normalize_idempotent_witness:
  "heap_closed escalated_upper_store
   \<and> normalizeAnalysisResult escalated_upper_store (JRef 1) = (Inr (JRef 2), escalated_lower_store)
   \<and> normalizeAnalysisResult escalated_lower_store (JRef 2)
       = (Inr (JRef 3), escalated_lower_store @ [escalated_lower_store ! 2])
   \<and> snapshot 2 (escalated_lower_store @ [escalated_lower_store ! 2]) (JRef 3)
       = snapshot 2 escalated_lower_store (JRef 2)"
proof -
  have d: "duplicate escalated_lower_store (JRef 2)
             = (JRef 3, escalated_lower_store @ [escalated_lower_store ! 2])"
    by (simp add: escalated_lower_store_def)
  from normalize_idempotent [OF closed_escalated_upper normalize_escalated_upper]
  show ?thesis
    using closed_escalated_upper normalize_escalated_upper unfolding d by auto
qed

text \<open>
  Claim C5 (the code departs from it). Normalizing
  \<open>{ human_escalation: { is_escalated: "YES" } }\<close> returns a copy, but the copy shares the
  nested object with the argument, and the assignment to \<open>is_escalated\<close> goes to that
  shared object: after the call the argument reads \<open>"yes"\<close> where it read \<open>"YES"\<close>.
\<close>

theorem normalize_changes_argument:
  "normalizeAnalysisResult escalated_upper_store (JRef 1) = (Inr (JRef 2), escalated_lower_store)
   \<and> get_prop escalated_upper_store
        (get_prop escalated_upper_store (JRef 1) ''human_escalation'') ''is_escalated''
       = JStr ''YES''
   \<and> get_prop escalated_lower_store
        (get_prop escalated_lower_store (JRef 1) ''human_escalation'') ''is_escalated''
       = JStr ''yes''
   \<and> snapshot 2 escalated_lower_store (JRef 1) \<noteq> snapshot 2 escalated_upper_store (JRef 1)"
proof -
  have "get_prop escalated_upper_store
          (get_prop escalated_upper_store (JRef 1) ''human_escalation'') ''is_escalated''
        = JStr ''YES''"
    by code_simp
  moreover have "get_prop escalated_lower_store
          (get_prop escalated_lower_store (JRef 1) ''human_escalation'') ''is_escalated''
        = JStr ''yes''"
    by code_simp
  moreover have "snapshot 2 escalated_lower_store (JRef 1) \<noteq> snapshot 2 escalated_upper_store (JRef 1)"
    by code_simp
  ultimately show ?thesis
    using normalize_escalated_upper by simp
qed

text \<open>
  Claim C3 (the code departs from it). The nested paths of the normalizer and the
  string factors of the scorer call \<open>toLowerCase\<close> on any truthy value. Normalizing
  \<open>{ human_escalation: { is_escalated: true } }\<close> throws a \<open>TypeError\<close>. The analysis
  \<open>{ is_chat_completed: true }\<close> passes the normalizer unchanged (that path tests the
  type), and scoring the result throws a \<open>TypeError\<close>.
\<close>

theorem malformed_value_throws:
  "normalizeAnalysisResult escalated_true_store (JRef 1)
     = (Inl TypeError,
        escalated_true_store @ [\<lparr>is_array = False, props = [(''human_escalation'', JRef 0)]\<rparr>])
   \<and> normalizeAnalysisResult completed_true_store (JRef 0)
       = (Inr (JRef 1),
          completed_true_store @ [\<lparr>is_array = False, props = [(''is_chat_completed'', JBool True)]\<rparr>])
   \<and> calculateSessionScore
         (completed_true_store @ [\<lparr>is_array = False, props = [(''is_chat_completed'', JBool True)]\<rparr>])
         (JRef 1)
       = Inl TypeError"
proof -
  have "normalizeAnalysisResult escalated_true_store (JRef 1)
     = (Inl TypeError,
        escalated_true_store @ [\<lparr>is_array = False, props = [(''human_escalation'', JRef 0)]\<rparr>])"
    by code_simp
  moreover have "normalizeAnalysisResult completed_true_store (JRef 0)
       = (Inr (JRef 1),
          completed_true_store @ [\<lparr>is_array = False, props = [(''is_chat_completed'', JBool True)]\<rparr>])"
    by code_simp
  moreover have "calculateSessionScore
         (completed_true_store @ [\<lparr>is_array = False, props = [(''is_chat_completed'', JBool True)]\<rparr>])
         (JRef 1)
       = Inl TypeError"
    by (simp add: calculateSessionScore_def scorer_eval completed_true_store_def get_prop.simps)
  ultimately show ?thesis by simp
qed

theorem malformed_value_throws_witness:
  "fst (normalizeAnalysisResult escalated_true_store (JRef 1)) = Inl TypeError
   \<and> fst (normalizeAnalysisResult completed_true_store (JRef 0)) = Inr (JRef 1)"
  using malformed_value_throws by simp

theorem normalize_changes_argument_witness:
  "snapshot 2 (snd (normalizeAnalysisResult escalated_upper_store (JRef 1))) (JRef 1)
     \<noteq> snapshot 2 escalated_upper_store (JRef 1)"
  using normalize_changes_argument by simp

section \<open>The scorer on a missing analysis\<close>

text \<open>
  Claim C9. For \<open>null\<close> and for \<open>undefined\<close> the scorer returns the plain number \<open>0\<close>,
  not a record; for a truthy analysis it never returns a plain number (it returns the
  record, or throws). So the shape of the result depends on the argument.
\<close>

theorem calculateSessionScore_missing:
  "calculateSessionScore h JNull = Inr (ScoreNumber 0)
   \<and> calculateSessionScore h JUndefined = Inr (ScoreNumber 0)
   \<and> (truthy analysis \<longrightarrow> (\<forall>n. calculateSessionScore h analysis \<noteq> Inr (ScoreNumber n)))"
  by (auto simp: calculateSessionScore_def bind_err_Inr_iff Let_def)

theorem calculateSessionScore_missing_witness:
  "truthy (JRef 7)
   \<and> calculateSessionScore best_store JNull = Inr (ScoreNumber 0)
   \<and> calculateSessionScore best_store (JRef 7) \<noteq> Inr (ScoreNumber 0)"
  using calculateSessionScore_missing [of best_store "JRef 7"] by simp

section \<open>The aggregator\<close>

text \<open>
  Claim C8. For no sessions the aggregator returns, without throwing and without a
  division: both outcomes at \<open>0\<close> in the four seeded distributions (chat completion,
  remote assistance, issue resolution, human escalation), an empty mapping for
  sentiment, tone and accuracy, and \<open>0\<close> for both averages.
\<close>

theorem calculateAggregateStats_empty:
  "calculateAggregateStats h [] =
     Inr \<lparr> average_chat_completion_rate = [(''yes'', Percent 0), (''no'', Percent 0)],
           average_user_sentiment_distribution = [],
           average_bot_tone_distribution = [],
           average_anydesk_required = [(''true'', Percent 0), (''false'', Percent 0)],
           average_user_experience_level = 0,
           average_user_effort_level = 0,
           average_response_accuracy = [],
           average_issue_resolution_rate = [(''resolved'', Percent 0), (''unresolved'', Percent 0)],
           average_human_escalation_rate = [(''yes'', Percent 0), (''no'', Percent 0)] \<rparr>"
  by (simp add: calculateAggregateStats_def)

theorem calculateAggregateStats_empty_witness:
  "(case calculateAggregateStats [] [] of
      Inr a \<Rightarrow> average_user_sentiment_distribution a = [] \<and> average_user_effort_level a = 0
                \<and> percent_total (average_human_escalation_rate a) = 0
    | Inl e \<Rightarrow> False)"
  using calculateAggregateStats_empty [of "[]"] by simp

lemma count_total_append [simp]:
  "count_total (t @ u) = count_total t + count_total u"
  by (induction t rule: count_total.induct) simp_all

























lemma tally_lower_undefined [simp]: "tally_lower JUndefined t = Inr t"
  by (simp add: tally_lower_def)

lemma tally_string_undefined [simp]: "tally_string JUndefined t = Inr t"
  by (simp add: tally_string_def)

lemma push_level_undefined [simp]: "push_level JUndefined l = l"
  by (simp add: push_level_def)

lemma opt_get_undefined [simp]: "opt_get h JUndefined k = JUndefined"
  by (simp add: opt_get_def)












section \<open>The session pipeline\<close>

lemma process_session_counts:
  "processedCount (process_session an i s st) + length (failedSessions (process_session an i s st))
     = Suc (processedCount st + length (failedSessions st))
   \<and> length (analysisResults (process_session an i s st)) + length (failedSessions (process_session an i s st))
     = Suc (length (analysisResults st) + length (failedSessions st))"
  by (auto simp: process_session_def Let_def split: sum.splits prod.splits)

lemma process_sessions_counts:
  "processedCount (process_sessions an i ss st) + length (failedSessions (process_sessions an i ss st))
     = processedCount st + length (failedSessions st) + length ss
   \<and> length (analysisResults (process_sessions an i ss st))
       + length (failedSessions (process_sessions an i ss st))
     = length (analysisResults st) + length (failedSessions st) + length ss"
proof (induction ss arbitrary: i st)
  case Nil
  show ?case by simp
next
  case (Cons s ss)
  show ?case
    using Cons.IH [where i = "Suc i" and st = "process_session an i s st"]
      process_session_counts [of an i s st]
    by simp
qed

lemma process_session_failed_mono:
  "set (failedSessions st) \<subseteq> set (failedSessions (process_session an i s st))"
  by (auto simp: process_session_def Let_def split: sum.splits prod.splits)

lemma process_sessions_failed_mono:
  "set (failedSessions st) \<subseteq> set (failedSessions (process_sessions an i ss st))"
proof (induction ss arbitrary: i st)
  case Nil
  show ?case by simp
next
  case (Cons s ss)
  show ?case
    using Cons.IH [where i = "Suc i" and st = "process_session an i s st"]
      process_session_failed_mono [of st an i s]
    by auto
qed

lemma process_session_no_id:
  "\<not> truthy (session_identifier s) \<Longrightarrow>
   \<lparr>f_index = i, f_sessionId = None, f_error = NoValidSessionId\<rparr>
     \<in> set (failedSessions (process_session an i s st))"
  by (simp add: process_session_def)

lemma process_session_call_failed:
  "truthy (session_identifier s) \<Longrightarrow> an (session_identifier s) = Inl message \<Longrightarrow>
   \<lparr>f_index = i, f_sessionId = Some (session_identifier s), f_error = CallFailed message\<rparr>
     \<in> set (failedSessions (process_session an i s st))"
  by (simp add: process_session_def)

lemma process_sessions_records:
  assumes "j < length ss"
  shows "(\<not> truthy (session_identifier (ss ! j)) \<longrightarrow>
            \<lparr>f_index = i + j, f_sessionId = None, f_error = NoValidSessionId\<rparr>
              \<in> set (failedSessions (process_sessions an i ss st)))
         \<and> (\<forall>message. truthy (session_identifier (ss ! j))
               \<longrightarrow> an (session_identifier (ss ! j)) = Inl message
               \<longrightarrow> \<lparr>f_index = i + j, f_sessionId = Some (session_identifier (ss ! j)),
                     f_error = CallFailed message\<rparr>
                    \<in> set (failedSessions (process_sessions an i ss st)))"
  using assms
proof (induction ss arbitrary: i j st)
  case Nil
  then show ?case by simp
next
  case (Cons s ss)
  show ?case
  proof (cases j)
    case 0
    let ?st1 = "process_session an i s st"
    have "set (failedSessions ?st1) \<subseteq> set (failedSessions (process_sessions an (Suc i) ss ?st1))"
      by (rule process_sessions_failed_mono)
    with 0 show ?thesis
      using process_session_no_id [of s i an st] process_session_call_failed [of s an _ i st]
      by auto
  next
    case (Suc j')
    with Cons.prems have "j' < length ss" by simp
    from Cons.IH [OF this, where i = "Suc i" and st = "process_session an i s st"] Suc show ?thesis
      by simp
  qed
qed

lemma process_sessions_append:
  "process_sessions an i (ss1 @ ss2) st
     = process_sessions an (i + length ss1) ss2 (process_sessions an i ss1 st)"
  by (induction ss1 arbitrary: i st) simp_all

lemma analyze_conversations_report:
  assumes "analyze_conversations an h ss = Inr rep"
  shows "rep_totalSessions rep = length ss
         \<and> rep_processedSessions rep = processedCount (batch_state an h ss)
         \<and> rep_failedSessions rep = length (failedSessions (batch_state an h ss))
         \<and> rep_failedSessionDetails rep = failedSessions (batch_state an h ss)
         \<and> rep_analysisResults rep = analysisResults (batch_state an h ss)"
proof (cases "ss = []")
  case True
  with assms show ?thesis
    by (auto simp: analyze_conversations_def batch_state_def bind_err_Inr_iff)
next
  case False
  with assms show ?thesis
    by (auto simp: analyze_conversations_def batch_state_def bind_err_Inr_iff Let_def)
qed

text \<open>
  Claim C6. The loop runs over every session whatever happens to any of them: the
  state after a batch is the state after its first part carried through the rest.
  Every session ends up either processed or failed, so the counts add up to the
  number of sessions. A session without an identifier leaves the failure record
  \<open>{ index, error: 'No valid session ID' }\<close>, and one whose analysis call fails leaves
  \<open>{ sessionId, error: message, index }\<close>. A report, when the handler produces one,
  has \<open>total = processed + failed\<close> and lists these failure records.
\<close>

theorem batch_isolates_failures:
  "processedCount (batch_state an h ss) + length (failedSessions (batch_state an h ss)) = length ss
   \<and> length (analysisResults (batch_state an h ss)) = processedCount (batch_state an h ss)
   \<and> (\<forall>ss1 ss2. ss = ss1 @ ss2 \<longrightarrow>
         batch_state an h ss = process_sessions an (length ss1) ss2 (batch_state an h ss1))
   \<and> (\<forall>i < length ss. \<not> truthy (session_identifier (ss ! i)) \<longrightarrow>
         \<lparr>f_index = i, f_sessionId = None, f_error = NoValidSessionId\<rparr>
           \<in> set (failedSessions (batch_state an h ss)))
   \<and> (\<forall>i < length ss. \<forall>message.
         truthy (session_identifier (ss ! i)) \<longrightarrow> an (session_identifier (ss ! i)) = Inl message \<longrightarrow>
         \<lparr>f_index = i, f_sessionId = Some (session_identifier (ss ! i)),
           f_error = CallFailed message\<rparr>
           \<in> set (failedSessions (batch_state an h ss)))
   \<and> (\<forall>rep. analyze_conversations an h ss = Inr rep \<longrightarrow>
         rep_totalSessions rep = rep_processedSessions rep + rep_failedSessions rep
         \<and> rep_failedSessionDetails rep = failedSessions (batch_state an h ss))"
proof -
  let ?init = "\<lparr> analysisResults = [], failedSessions = [], processedCount = 0, store = h \<rparr>"
  from process_sessions_counts [of an 0 ss ?init]
  have c1: "processedCount (batch_state an h ss) + length (failedSessions (batch_state an h ss))
              = length ss"
    and c2: "length (analysisResults (batch_state an h ss))
               + length (failedSessions (batch_state an h ss)) = length ss"
    by (simp_all add: batch_state_def)
  from c1 c2 have c3: "length (analysisResults (batch_state an h ss))
                        = processedCount (batch_state an h ss)"
    by simp
  have a: "\<forall>ss1 ss2. ss = ss1 @ ss2 \<longrightarrow>
             batch_state an h ss = process_sessions an (length ss1) ss2 (batch_state an h ss1)"
    by (simp add: batch_state_def process_sessions_append)
  have r: "\<forall>i < length ss.
             (\<not> truthy (session_identifier (ss ! i)) \<longrightarrow>
                \<lparr>f_index = i, f_sessionId = None, f_error = NoValidSessionId\<rparr>
                  \<in> set (failedSessions (batch_state an h ss)))
             \<and> (\<forall>message. truthy (session_identifier (ss ! i)) \<longrightarrow>
                   an (session_identifier (ss ! i)) = Inl message \<longrightarrow>
                   \<lparr>f_index = i, f_sessionId = Some (session_identifier (ss ! i)),
                     f_error = CallFailed message\<rparr>
                     \<in> set (failedSessions (batch_state an h ss)))"
    using process_sessions_records [of _ ss 0 an ?init]
    by (simp add: batch_state_def)
  have p: "\<forall>rep. analyze_conversations an h ss = Inr rep \<longrightarrow>
             rep_totalSessions rep = rep_processedSessions rep + rep_failedSessions rep
             \<and> rep_failedSessionDetails rep = failedSessions (batch_state an h ss)"
    using analyze_conversations_report [of an h ss] c1 by auto
  from c1 c3 a r p show ?thesis by blast
qed

end
